theory Spec2Isabelle
  imports Main "HOL-Library.Word"
begin

unbundle bit_operations_syntax

section \<open>Machine types, error codes and bit-field macros\<close>

type_synonym u8 = "8 word"
type_synonym u16 = "16 word"
type_synonym u32 = "32 word"
type_synonym u64 = "64 word"

text \<open>
  C functions of the driver return \<open>int\<close>: 0 on success, a negative errno otherwise.
  The errno numbers are those of Linux.
\<close>

definition EIO :: int where "EIO = 5"
definition EINVAL :: int where "EINVAL = 22"
definition ETIMEDOUT :: int where "ETIMEDOUT = 110"

text \<open>
  \<open>GENMASK(h, l)\<close> and the \<open>FIELD_*\<close> macros of \<open>linux/bitfield.h\<close>. A mask is
  always written \<open>GENMASK(h, l)\<close> in the driver, so the macros take the pair \<open>h l\<close>;
  the shift of the mask is then \<open>l\<close>.
\<close>

definition GENMASK :: "nat \<Rightarrow> nat \<Rightarrow> 'a::len word" where
  "GENMASK h l = push_bit l (mask (h + 1 - l))"

definition FIELD_GET :: "nat \<Rightarrow> nat \<Rightarrow> 'a::len word \<Rightarrow> 'a word" where
  "FIELD_GET h l v = drop_bit l (v AND GENMASK h l)"

definition FIELD_PREP :: "nat \<Rightarrow> nat \<Rightarrow> 'a::len word \<Rightarrow> 'a word" where
  "FIELD_PREP h l v = push_bit l v AND GENMASK h l"

definition FIELD_FIT :: "nat \<Rightarrow> nat \<Rightarrow> 'a::len word \<Rightarrow> bool" where
  "FIELD_FIT h l v = (push_bit l v AND NOT (GENMASK h l) = 0)"

definition FIELD_MAX :: "nat \<Rightarrow> nat \<Rightarrow> 'a::len word" where
  "FIELD_MAX h l = drop_bit l (GENMASK h l)"

definition FIELD_WIDTH :: "nat \<Rightarrow> nat \<Rightarrow> nat" where
  "FIELD_WIDTH h l = h + 1 - l"

section \<open>The register transport\<close>

text \<open>
  Modelled from the spec: the register transport (the \<open>regmap\<close> calls of the driver) and
  the chip behind it are not part of the sources. Following sections 2, 4.1 and 6 of the
  specification, the chip is a file of 16-bit registers at numbered addresses, together
  with the rows of its lookup tables. Every single-register access on the bus may
  fail: \<open>faults\<close> lists the outcome of the coming accesses in order (0 for success,
  otherwise the errno the transport returns); an exhausted list means success.
  \<open>trace\<close> records the accesses that succeeded, oldest first.
\<close>

datatype bus_event = Rd nat | Wr nat u16

record chip =
  regs :: "nat \<Rightarrow> u16"
  tables :: "nat \<Rightarrow> nat \<Rightarrow> nat \<Rightarrow> u16"
  faults :: "int list"
  trace :: "bus_event list"

abbreviation RTL8365MB_TABLE_CONTROL_REG :: nat where "RTL8365MB_TABLE_CONTROL_REG \<equiv> 0x0500"
abbreviation RTL8365MB_TABLE_ACCESS_ADDR_REG :: nat where "RTL8365MB_TABLE_ACCESS_ADDR_REG \<equiv> 0x0501"
abbreviation RTL8365MB_TABLE_LUT_REG :: nat where "RTL8365MB_TABLE_LUT_REG \<equiv> 0x0502"
abbreviation RTL8365MB_TABLE_WRITE_DATA_REG_BASE :: nat where "RTL8365MB_TABLE_WRITE_DATA_REG_BASE \<equiv> 0x0510"
abbreviation RTL8365MB_TABLE_READ_DATA_REG_BASE :: nat where "RTL8365MB_TABLE_READ_DATA_REG_BASE \<equiv> 0x0520"

text \<open>
  Modelled from the spec: the table engine of the chip (section 4.1: a row is staged in
  the write-data registers, the target address and the table id with the operation code
  are programmed into the address and control registers, a read delivers the row in the
  read-data registers). A write to the control register runs the command it holds: bit 3
  is the operation, bits 2..0 the table, the address register gives the row. A row has
  ten words, one per data register.
\<close>

definition table_engine :: "chip \<Rightarrow> chip" where
  "table_engine s =
     (let ctl = regs s RTL8365MB_TABLE_CONTROL_REG;
          t = unat (ctl AND 7);
          a = unat (regs s RTL8365MB_TABLE_ACCESS_ADDR_REG AND 0x3FFF)
      in if bit ctl 3
         then s\<lparr>tables := (tables s)(t := (tables s t)
                  (a := (\<lambda>i. regs s (RTL8365MB_TABLE_WRITE_DATA_REG_BASE + i))))\<rparr>
         else s\<lparr>regs := (\<lambda>r. if RTL8365MB_TABLE_READ_DATA_REG_BASE \<le> r
                                  \<and> r < RTL8365MB_TABLE_READ_DATA_REG_BASE + 10
                               then tables s t a (r - RTL8365MB_TABLE_READ_DATA_REG_BASE)
                               else regs s r)\<rparr>)"

definition next_fault :: "chip \<Rightarrow> int \<times> chip" where
  "next_fault s = (case faults s of [] \<Rightarrow> (0, s) | e # es \<Rightarrow> (e, s\<lparr>faults := es\<rparr>))"

text \<open>\<open>regmap_read\<close>: the value is only meaningful when the return code is 0.\<close>

definition regmap_read :: "chip \<Rightarrow> nat \<Rightarrow> int \<times> u32 \<times> chip" where
  "regmap_read s reg =
     (case next_fault s of (e, s1) \<Rightarrow>
        if e \<noteq> 0 then (e, 0, s1)
        else (0, ucast (regs s1 reg), s1\<lparr>trace := trace s1 @ [Rd reg]\<rparr>))"

text \<open>\<open>regmap_write\<close>: the bus carries the low 16 bits of the value.\<close>

definition regmap_write :: "chip \<Rightarrow> nat \<Rightarrow> u32 \<Rightarrow> int \<times> chip" where
  "regmap_write s reg val =
     (case next_fault s of (e, s1) \<Rightarrow>
        if e \<noteq> 0 then (e, s1)
        else let s2 = s1\<lparr>regs := (regs s1)(reg := ucast val),
                          trace := trace s1 @ [Wr reg (ucast val)]\<rparr>
             in (0, if reg = RTL8365MB_TABLE_CONTROL_REG then table_engine s2 else s2))"

text \<open>\<open>regmap_update_bits\<close>: read, replace the bits under the mask, write back.\<close>

definition regmap_update_bits :: "chip \<Rightarrow> nat \<Rightarrow> u32 \<Rightarrow> u32 \<Rightarrow> int \<times> chip" where
  "regmap_update_bits s reg msk val =
     (case regmap_read s reg of (ret, orig, s1) \<Rightarrow>
        if ret \<noteq> 0 then (ret, s1)
        else regmap_write s1 reg ((orig AND NOT msk) OR (val AND msk)))"

text \<open>Bulk transfers are runs of single accesses at consecutive addresses; the first
  failure ends the run.\<close>

fun regmap_bulk_read :: "chip \<Rightarrow> nat \<Rightarrow> nat \<Rightarrow> int \<times> u16 list \<times> chip" where
  "regmap_bulk_read s reg 0 = (0, [], s)"
| "regmap_bulk_read s reg (Suc n) =
     (case regmap_read s reg of (ret, v, s1) \<Rightarrow>
        if ret \<noteq> 0 then (ret, [], s1)
        else (case regmap_bulk_read s1 (reg + 1) n of (ret2, vs, s2) \<Rightarrow>
                (ret2, ucast v # vs, s2)))"

fun regmap_bulk_write :: "chip \<Rightarrow> nat \<Rightarrow> u16 list \<Rightarrow> int \<times> chip" where
  "regmap_bulk_write s reg [] = (0, s)"
| "regmap_bulk_write s reg (v # vs) =
     (case regmap_write s reg (ucast v) of (ret, s1) \<Rightarrow>
        if ret \<noteq> 0 then (ret, s1) else regmap_bulk_write s1 (reg + 1) vs)"

text \<open>
  \<open>regmap_read_poll_timeout\<close> with interval 10 and timeout 100 microseconds: the register
  is read until the condition holds or a read fails; the time bound is counted in reads,
  ten retries after the first one. When the bound is reached the result is \<open>-ETIMEDOUT\<close>.
\<close>

fun poll_reg :: "nat \<Rightarrow> chip \<Rightarrow> nat \<Rightarrow> (u32 \<Rightarrow> bool) \<Rightarrow> int \<times> u32 \<times> chip" where
  "poll_reg 0 s reg cond =
     (case regmap_read s reg of (ret, v, s1) \<Rightarrow>
        if ret \<noteq> 0 then (ret, v, s1)
        else if cond v then (0, v, s1) else (- ETIMEDOUT, v, s1))"
| "poll_reg (Suc n) s reg cond =
     (case regmap_read s reg of (ret, v, s1) \<Rightarrow>
        if ret \<noteq> 0 then (ret, v, s1)
        else if cond v then (0, v, s1) else poll_reg n s1 reg cond)"

definition regmap_read_poll_timeout ::
    "chip \<Rightarrow> nat \<Rightarrow> (u32 \<Rightarrow> bool) \<Rightarrow> int \<times> u32 \<times> chip" where
  "regmap_read_poll_timeout s reg cond = poll_reg 10 s reg cond"

section \<open>Table access\<close>

text \<open>\<open>enum rtl8365mb_table\<close>: the table ids 1 to 5, and the number of tables.\<close>

definition RTL8365MB_TABLE_ACL_RULE :: nat where "RTL8365MB_TABLE_ACL_RULE = 1"
definition RTL8365MB_TABLE_ACL_ACT :: nat where "RTL8365MB_TABLE_ACL_ACT = 2"
definition RTL8365MB_TABLE_CVLAN :: nat where "RTL8365MB_TABLE_CVLAN = 3"
definition RTL8365MB_TABLE_L2 :: nat where "RTL8365MB_TABLE_L2 = 4"
definition RTL8365MB_TABLE_IGMP_GROUP :: nat where "RTL8365MB_TABLE_IGMP_GROUP = 5"
definition RTL8365MB_NUM_TABLES :: nat where "RTL8365MB_NUM_TABLES = 6"

datatype rtl8365mb_table_op = RTL8365MB_TABLE_READ | RTL8365MB_TABLE_WRITE

fun table_op_val :: "rtl8365mb_table_op \<Rightarrow> u32" where
  "table_op_val RTL8365MB_TABLE_READ = 0"
| "table_op_val RTL8365MB_TABLE_WRITE = 1"

text \<open>The array \<open>rtl8365mb_table_entry_size\<close>; entry 0 has no initialiser and is 0.\<close>

definition rtl8365mb_table_entry_size :: "nat list" where
  "rtl8365mb_table_entry_size = [0, 0, 0, 3, 0, 0]"

text \<open>
  \<open>rtl8365mb_table_access\<close>, with the array of row widths as a parameter \<open>esz\<close>. The
  buffer \<open>val\<close> is passed in and returned; a read overwrites its first \<open>val_size\<close>
  words. The table lock is held from the first access to the return and is not
  modelled: the model is sequential.
\<close>

definition table_access_tail ::
    "nat \<Rightarrow> chip \<Rightarrow> nat \<Rightarrow> rtl8365mb_table_op \<Rightarrow> u16 \<Rightarrow> u16 list
       \<Rightarrow> int \<times> u16 list \<times> chip" where
  "table_access_tail val_size s table op index val =
     (case regmap_write s RTL8365MB_TABLE_ACCESS_ADDR_REG (FIELD_PREP 13 0 (ucast index)) of
        (ret, s1) \<Rightarrow>
        if ret \<noteq> 0 then (ret, val, s1)
        else
        (case regmap_update_bits s1 RTL8365MB_TABLE_CONTROL_REG
                (GENMASK 3 3 OR GENMASK 2 0)
                (FIELD_PREP 3 3 (table_op_val op) OR FIELD_PREP 2 0 (of_nat table)) of
           (ret, s2) \<Rightarrow>
           if ret \<noteq> 0 then (ret, val, s2)
           else if op = RTL8365MB_TABLE_READ then
             (case regmap_read s2 RTL8365MB_TABLE_LUT_REG of (ret0, lut0, s3) \<Rightarrow>
              (case regmap_read_poll_timeout s3 RTL8365MB_TABLE_LUT_REG
                      (\<lambda>lut. FIELD_PREP 13 13 lut = 0) of
                 (ret, lut, s4) \<Rightarrow>
                 if ret \<noteq> 0 then (ret, val, s4)
                 else
                 (case regmap_bulk_read s4 RTL8365MB_TABLE_READ_DATA_REG_BASE val_size of
                    (ret, buf, s5) \<Rightarrow>
                    if ret \<noteq> 0 then (ret, buf @ drop (length buf) val, s5)
                    else let val1 = buf @ drop val_size val
                         in (ret, if val_size = 10 then val1[9 := val1 ! 9 AND GENMASK 3 0]
                                  else val1, s5))))
           else (ret, val, s2)))"

definition rtl8365mb_table_access_sz ::
    "nat list \<Rightarrow> chip \<Rightarrow> nat \<Rightarrow> rtl8365mb_table_op \<Rightarrow> u16 \<Rightarrow> u16 list
       \<Rightarrow> int \<times> u16 list \<times> chip" where
  "rtl8365mb_table_access_sz esz s table op index val =
     (if table \<ge> RTL8365MB_NUM_TABLES then (- EINVAL, val, s)
      else if \<not> FIELD_FIT 13 0 index then (- EINVAL, val, s)
      else let val_size = esz ! table in
        if op = RTL8365MB_TABLE_WRITE then
          (case regmap_bulk_write s RTL8365MB_TABLE_WRITE_DATA_REG_BASE
                  (take (if val_size = 10 then 9 else val_size) val) of
             (ret, s1) \<Rightarrow>
             if ret \<noteq> 0 then (ret, val, s1)
             else
             (case (if val_size = 10
                    then regmap_update_bits s1 (RTL8365MB_TABLE_WRITE_DATA_REG_BASE + 9)
                           (GENMASK 3 0) (FIELD_PREP 3 0 (ucast (val ! 9)))
                    else (ret, s1)) of
                (ret, s2) \<Rightarrow>
                if ret \<noteq> 0 then (ret, val, s2)
                else table_access_tail val_size s2 table op index val))
        else
          (case regmap_read_poll_timeout s RTL8365MB_TABLE_LUT_REG
                  (\<lambda>lut. FIELD_PREP 13 13 lut = 0) of
             (ret, lut, s1) \<Rightarrow>
             if ret \<noteq> 0 then (ret, val, s1)
             else table_access_tail val_size s1 table op index val))"

definition rtl8365mb_table_access ::
    "chip \<Rightarrow> nat \<Rightarrow> rtl8365mb_table_op \<Rightarrow> u16 \<Rightarrow> u16 list \<Rightarrow> int \<times> u16 list \<times> chip" where
  "rtl8365mb_table_access = rtl8365mb_table_access_sz rtl8365mb_table_entry_size"

section \<open>Indirect PHY register access\<close>

abbreviation RTL8365MB_INDIRECT_ACCESS_CTRL_REG :: nat where
  "RTL8365MB_INDIRECT_ACCESS_CTRL_REG \<equiv> 0x1F00"
abbreviation RTL8365MB_INDIRECT_ACCESS_STATUS_REG :: nat where
  "RTL8365MB_INDIRECT_ACCESS_STATUS_REG \<equiv> 0x1F01"
abbreviation RTL8365MB_INDIRECT_ACCESS_ADDRESS_REG :: nat where
  "RTL8365MB_INDIRECT_ACCESS_ADDRESS_REG \<equiv> 0x1F02"
abbreviation RTL8365MB_INDIRECT_ACCESS_WRITE_DATA_REG :: nat where
  "RTL8365MB_INDIRECT_ACCESS_WRITE_DATA_REG \<equiv> 0x1F03"
abbreviation RTL8365MB_INDIRECT_ACCESS_READ_DATA_REG :: nat where
  "RTL8365MB_INDIRECT_ACCESS_READ_DATA_REG \<equiv> 0x1F04"
abbreviation RTL8365MB_GPHY_OCP_MSB_0_REG :: nat where
  "RTL8365MB_GPHY_OCP_MSB_0_REG \<equiv> 0x1D15"
abbreviation RTL8365MB_PHY_BASE :: u32 where "RTL8365MB_PHY_BASE \<equiv> 0x2000"
abbreviation RTL8365MB_PHY_OCP_ADDR_PHYREG_BASE :: u32 where
  "RTL8365MB_PHY_OCP_ADDR_PHYREG_BASE \<equiv> 0xA400"

definition RTL8365MB_PHYADDRMAX :: nat where "RTL8365MB_PHYADDRMAX = 7"
definition RTL8365MB_PHYREGMAX :: nat where "RTL8365MB_PHYREGMAX = 31"

text \<open>
  The functions below run under the bus lock on the transport's \<open>map_nolock\<close>; the lock
  is taken at entry and released at the label \<open>out\<close>, and is not modelled.
\<close>

definition rtl8365mb_phy_poll_busy :: "chip \<Rightarrow> int \<times> chip" where
  "rtl8365mb_phy_poll_busy s =
     (case regmap_read_poll_timeout s RTL8365MB_INDIRECT_ACCESS_STATUS_REG (\<lambda>val. val = 0) of
        (ret, val, s1) \<Rightarrow> (ret, s1))"

definition rtl8365mb_phy_ocp_prepare :: "chip \<Rightarrow> nat \<Rightarrow> u32 \<Rightarrow> int \<times> chip" where
  "rtl8365mb_phy_ocp_prepare s phy ocp_addr =
     (case regmap_update_bits s RTL8365MB_GPHY_OCP_MSB_0_REG (GENMASK 11 6)
             (FIELD_PREP 11 6 (FIELD_GET 15 10 ocp_addr)) of
        (ret, s1) \<Rightarrow>
        if ret \<noteq> 0 then (ret, s1)
        else
        (case regmap_write s1 RTL8365MB_INDIRECT_ACCESS_ADDRESS_REG
                (RTL8365MB_PHY_BASE OR FIELD_PREP 7 5 (of_nat phy)
                   OR FIELD_PREP 4 0 (drop_bit 1 ocp_addr)
                   OR FIELD_PREP 11 8 (drop_bit 6 ocp_addr)) of
           (ret, s2) \<Rightarrow> if ret \<noteq> 0 then (ret, s2) else (0, s2)))"

definition rtl8365mb_phy_ocp_read :: "chip \<Rightarrow> nat \<Rightarrow> u32 \<Rightarrow> u16 \<Rightarrow> int \<times> u16 \<times> chip" where
  "rtl8365mb_phy_ocp_read s phy ocp_addr data =
     (case rtl8365mb_phy_poll_busy s of (ret, s1) \<Rightarrow>
      if ret \<noteq> 0 then (ret, data, s1) else
      (case rtl8365mb_phy_ocp_prepare s1 phy ocp_addr of (ret, s2) \<Rightarrow>
       if ret \<noteq> 0 then (ret, data, s2) else
       (case regmap_write s2 RTL8365MB_INDIRECT_ACCESS_CTRL_REG
               (FIELD_PREP 0 0 1 OR FIELD_PREP 1 1 0) of (ret, s3) \<Rightarrow>
        if ret \<noteq> 0 then (ret, data, s3) else
        (case rtl8365mb_phy_poll_busy s3 of (ret, s4) \<Rightarrow>
         if ret \<noteq> 0 then (ret, data, s4) else
         (case regmap_read s4 RTL8365MB_INDIRECT_ACCESS_READ_DATA_REG of (ret, val, s5) \<Rightarrow>
          if ret \<noteq> 0 then (ret, data, s5)
          else (ret, ucast (val AND 0xFFFF), s5))))))"

text \<open>
  \<open>rtl8365mb_phy_ocp_write\<close> up to the label \<open>out\<close>: the value of \<open>ret\<close> there, and the
  chip. The function itself ends in \<open>return 0\<close>.
\<close>

definition phy_ocp_write_out :: "chip \<Rightarrow> nat \<Rightarrow> u32 \<Rightarrow> u16 \<Rightarrow> int \<times> chip" where
  "phy_ocp_write_out s phy ocp_addr data =
     (case rtl8365mb_phy_poll_busy s of (ret, s1) \<Rightarrow>
      if ret \<noteq> 0 then (ret, s1) else
      (case rtl8365mb_phy_ocp_prepare s1 phy ocp_addr of (ret, s2) \<Rightarrow>
       if ret \<noteq> 0 then (ret, s2) else
       (case regmap_write s2 RTL8365MB_INDIRECT_ACCESS_WRITE_DATA_REG (ucast data) of
          (ret, s3) \<Rightarrow>
        if ret \<noteq> 0 then (ret, s3) else
        (case regmap_write s3 RTL8365MB_INDIRECT_ACCESS_CTRL_REG
                (FIELD_PREP 0 0 1 OR FIELD_PREP 1 1 1) of (ret, s4) \<Rightarrow>
         if ret \<noteq> 0 then (ret, s4) else
         (case rtl8365mb_phy_poll_busy s4 of (ret, s5) \<Rightarrow> (ret, s5))))))"

definition rtl8365mb_phy_ocp_write :: "chip \<Rightarrow> nat \<Rightarrow> u32 \<Rightarrow> u16 \<Rightarrow> int \<times> chip" where
  "rtl8365mb_phy_ocp_write s phy ocp_addr data =
     (case phy_ocp_write_out s phy ocp_addr data of (ret, s1) \<Rightarrow> (0, s1))"

text \<open>\<open>rtl8365mb_phy_write\<close>; the second component tells whether the failure was logged
  with \<open>dev_err\<close>.\<close>

definition rtl8365mb_phy_write :: "chip \<Rightarrow> nat \<Rightarrow> nat \<Rightarrow> u16 \<Rightarrow> int \<times> bool \<times> chip" where
  "rtl8365mb_phy_write s phy regnum val =
     (if phy > RTL8365MB_PHYADDRMAX then (- EINVAL, False, s)
      else if regnum > RTL8365MB_PHYREGMAX then (- EINVAL, False, s)
      else
        (case rtl8365mb_phy_ocp_write s phy
                (RTL8365MB_PHY_OCP_ADDR_PHYREG_BASE + of_nat regnum * 2) val of
           (ret, s1) \<Rightarrow> if ret \<noteq> 0 then (ret, True, s1) else (0, False, s1)))"

section \<open>VLAN tables\<close>

abbreviation RTL8365MB_VLAN_CTRL_REG :: nat where "RTL8365MB_VLAN_CTRL_REG \<equiv> 0x07A8"
abbreviation RTL8365MB_VLAN_ACCEPT_FRAME_TYPE_BASE :: nat where
  "RTL8365MB_VLAN_ACCEPT_FRAME_TYPE_BASE \<equiv> 0x07AA"
abbreviation RTL8365MB_VLAN_PVID_CTRL_BASE :: nat where
  "RTL8365MB_VLAN_PVID_CTRL_BASE \<equiv> 0x0700"
abbreviation RTL8365MB_VLAN_MC_CONF_BASE :: nat where "RTL8365MB_VLAN_MC_CONF_BASE \<equiv> 0x0728"
abbreviation (input) RTL8365MB_VLAN_MC_CONF_ENTRY_SIZE :: nat where
  "RTL8365MB_VLAN_MC_CONF_ENTRY_SIZE \<equiv> 4"
abbreviation (input) RTL8365MB_VLAN_MC_CONF_SIZE :: nat where "RTL8365MB_VLAN_MC_CONF_SIZE \<equiv> 32"
abbreviation RTL8365MB_MAX_4K_VID :: u16 where "RTL8365MB_MAX_4K_VID \<equiv> 0x0FFF"
abbreviation RTL8365MB_MAX_MC_VID :: u16 where "RTL8365MB_MAX_MC_VID \<equiv> 0x1FFF"
abbreviation (input) RTL8365MB_MAX_NUM_PORTS :: nat where "RTL8365MB_MAX_NUM_PORTS \<equiv> 11"

definition RTL8365MB_VLAN_ACCEPT_FRAME_TYPE_REG :: "nat \<Rightarrow> nat" where
  "RTL8365MB_VLAN_ACCEPT_FRAME_TYPE_REG port =
     RTL8365MB_VLAN_ACCEPT_FRAME_TYPE_BASE + drop_bit 3 port"

definition RTL8365MB_VLAN_ACCEPT_FRAME_TYPE_OFFSET :: "nat \<Rightarrow> nat" where
  "RTL8365MB_VLAN_ACCEPT_FRAME_TYPE_OFFSET port = push_bit 1 (port AND 0x7)"

definition RTL8365MB_VLAN_ACCEPT_FRAME_TYPE_MASK :: "nat \<Rightarrow> u32" where
  "RTL8365MB_VLAN_ACCEPT_FRAME_TYPE_MASK port =
     push_bit (RTL8365MB_VLAN_ACCEPT_FRAME_TYPE_OFFSET port) 0x3"

definition RTL8365MB_VLAN_PVID_CTRL_REG :: "nat \<Rightarrow> nat" where
  "RTL8365MB_VLAN_PVID_CTRL_REG port = RTL8365MB_VLAN_PVID_CTRL_BASE + drop_bit 1 port"

definition RTL8365MB_VLAN_PVID_CTRL_OFFSET :: "nat \<Rightarrow> nat" where
  "RTL8365MB_VLAN_PVID_CTRL_OFFSET port = push_bit 3 (port AND 1)"

definition RTL8365MB_VLAN_PVID_CTRL_MASK :: "nat \<Rightarrow> u32" where
  "RTL8365MB_VLAN_PVID_CTRL_MASK port = push_bit (RTL8365MB_VLAN_PVID_CTRL_OFFSET port) 0xFF"

definition RTL8365MB_VLAN_MC_CONF_REG :: "nat \<Rightarrow> nat" where
  "RTL8365MB_VLAN_MC_CONF_REG index =
     RTL8365MB_VLAN_MC_CONF_BASE + RTL8365MB_VLAN_MC_CONF_ENTRY_SIZE * index"

text \<open>\<open>enum rtl8365mb_frame_type\<close>, as the numbers stored in the register field.\<close>

abbreviation (input) RTL8365MB_FRAME_TYPE_ANY_FRAME :: u32 where "RTL8365MB_FRAME_TYPE_ANY_FRAME \<equiv> 0"
abbreviation (input) RTL8365MB_FRAME_TYPE_TAGGED_ONLY :: u32 where
  "RTL8365MB_FRAME_TYPE_TAGGED_ONLY \<equiv> 1"
abbreviation (input) RTL8365MB_FRAME_TYPE_UNTAGGED_ONLY :: u32 where
  "RTL8365MB_FRAME_TYPE_UNTAGGED_ONLY \<equiv> 2"

text \<open>The bridge flags of \<open>linux/if_bridge.h\<close> that the driver tests.\<close>

abbreviation (input) BRIDGE_VLAN_INFO_PVID :: u16 where "BRIDGE_VLAN_INFO_PVID \<equiv> 2"
abbreviation (input) BRIDGE_VLAN_INFO_UNTAGGED :: u16 where "BRIDGE_VLAN_INFO_UNTAGGED \<equiv> 4"

text \<open>
  Modelled from the spec: the structures \<open>switchdev_obj_port_vlan\<close>, \<open>rtl8366_vlan_4k\<close>
  and \<open>rtl8366_vlan_mc\<close> are declared in headers that are not part of the sources. The
  fields are those the driver reads and writes (section 3 of the specification: member
  and untagged port bitmaps and forwarding-domain id of a by-ID entry; member bitmap,
  forwarding-domain id, priority and VLAN ID of a context slot). Bitmaps and VLAN IDs
  are 16 bits wide, forwarding-domain id and priority 8 bits.
\<close>

record switchdev_obj_port_vlan =
  vid :: u16
  flags :: u16

record rtl8366_vlan_4k =
  member_4k :: u16
  untag_4k :: u16
  fid_4k :: u8

record rtl8366_vlan_mc =
  vid_mc :: u16
  member_mc :: u16
  fid_mc :: u8
  priority_mc :: u8

text \<open>The initialiser \<open>{0}\<close>.\<close>

definition vlan4k_zero :: rtl8366_vlan_4k where
  "vlan4k_zero = \<lparr>member_4k = 0, untag_4k = 0, fid_4k = 0\<rparr>"

definition vlanmc_zero :: rtl8366_vlan_mc where
  "vlanmc_zero = \<lparr>vid_mc = 0, member_mc = 0, fid_mc = 0, priority_mc = 0\<rparr>"

text \<open>\<open>BIT(port)\<close>, at the width of the 16-bit bitmap it is combined with.\<close>

definition BIT :: "nat \<Rightarrow> u16" where
  "BIT port = push_bit port 1"

text \<open>
  The conversions between a table row and the structures. The fields are assembled at
  the width of their destination: the bit operations used commute with the truncation
  to that width.
\<close>

definition rtl8365mb_buf_vlan4k :: "u16 list \<Rightarrow> rtl8366_vlan_4k \<Rightarrow> rtl8366_vlan_4k" where
  "rtl8365mb_buf_vlan4k buf vlan4k =
     vlan4k\<lparr>member_4k := FIELD_GET 7 0 (buf ! 0)
                 OR push_bit (FIELD_WIDTH 7 0) (FIELD_GET 2 0 (buf ! 2)),
            untag_4k := FIELD_GET 15 8 (buf ! 0)
                 OR push_bit (FIELD_WIDTH 15 8) (FIELD_GET 5 3 (buf ! 2)),
            fid_4k := ucast (FIELD_GET 3 0 (buf ! 1))\<rparr>"

definition rtl8365mb_vlan4k_buf :: "rtl8366_vlan_4k \<Rightarrow> u16 list \<Rightarrow> u16 list" where
  "rtl8365mb_vlan4k_buf vlan4k buf =
     (let b0 = (buf ! 0 AND NOT (GENMASK 7 0))
                 OR FIELD_PREP 7 0 (member_4k vlan4k AND FIELD_MAX 7 0);
          b2 = (buf ! 2 AND NOT (GENMASK 2 0))
                 OR FIELD_PREP 2 0 (drop_bit (FIELD_WIDTH 7 0) (member_4k vlan4k));
          b1 = (buf ! 1 AND NOT (GENMASK 3 0)) OR FIELD_PREP 3 0 (ucast (fid_4k vlan4k));
          b0' = (b0 AND NOT (GENMASK 15 8))
                 OR FIELD_PREP 15 8 (untag_4k vlan4k AND FIELD_MAX 15 8);
          b2' = (b2 AND NOT (GENMASK 5 3))
                 OR FIELD_PREP 5 3 (drop_bit (FIELD_WIDTH 15 8) (untag_4k vlan4k))
      in buf[0 := b0', 1 := b1, 2 := b2'])"

definition rtl8365mb_vlan4k_set ::
    "chip \<Rightarrow> nat \<Rightarrow> switchdev_obj_port_vlan \<Rightarrow> bool \<Rightarrow> int \<times> chip" where
  "rtl8365mb_vlan4k_set s port vlan include =
     (if vid vlan > RTL8365MB_MAX_4K_VID then (- EINVAL, s)
      else
        (case rtl8365mb_table_access s RTL8365MB_TABLE_CVLAN RTL8365MB_TABLE_READ (vid vlan)
                [0, 0, 0] of
           (ret, vlan_entry, s1) \<Rightarrow>
           if ret \<noteq> 0 then (ret, s1)
           else
             let vlan4k = rtl8365mb_buf_vlan4k vlan_entry vlan4k_zero;
                 vlan4k = (if include then vlan4k\<lparr>member_4k := member_4k vlan4k OR BIT port\<rparr>
                           else vlan4k\<lparr>member_4k := member_4k vlan4k AND NOT (BIT port)\<rparr>);
                 vlan4k = (if include \<and> flags vlan AND BRIDGE_VLAN_INFO_UNTAGGED \<noteq> 0
                           then vlan4k\<lparr>untag_4k := untag_4k vlan4k OR BIT port\<rparr>
                           else vlan4k\<lparr>untag_4k := untag_4k vlan4k AND NOT (BIT port)\<rparr>)
             in (case rtl8365mb_table_access s1 RTL8365MB_TABLE_CVLAN RTL8365MB_TABLE_WRITE
                       (vid vlan) (rtl8365mb_vlan4k_buf vlan4k vlan_entry) of
                   (ret, vlan_entry', s2) \<Rightarrow> (ret, s2))))"

definition rtl8365mb_buf_vlanmc :: "u16 list \<Rightarrow> rtl8366_vlan_mc \<Rightarrow> rtl8366_vlan_mc" where
  "rtl8365mb_buf_vlanmc buf vlanmc =
     vlanmc\<lparr>member_mc := FIELD_GET 10 0 (buf ! 0),
            fid_mc := ucast (FIELD_GET 3 0 (buf ! 1)),
            priority_mc := ucast (FIELD_GET 3 1 (buf ! 2)),
            vid_mc := FIELD_GET 12 0 (buf ! 3)\<rparr>"

definition rtl8365mb_vlanmc_buf :: "rtl8366_vlan_mc \<Rightarrow> u16 list \<Rightarrow> u16 list" where
  "rtl8365mb_vlanmc_buf vlanmc buf =
     buf[0 := (buf ! 0 AND NOT (GENMASK 10 0)) OR FIELD_PREP 10 0 (member_mc vlanmc),
         1 := (buf ! 1 AND NOT (GENMASK 3 0)) OR FIELD_PREP 3 0 (ucast (fid_mc vlanmc)),
         2 := (buf ! 2 AND NOT (GENMASK 3 1)) OR FIELD_PREP 3 1 (ucast (priority_mc vlanmc)),
         3 := (buf ! 3 AND NOT (GENMASK 12 0)) OR FIELD_PREP 12 0 (vid_mc vlanmc)]"

text \<open>
  \<open>rtl8365mb_vlanmc_set\<close>, first part: the loop over the context slots 1 to 31, given as
  the list of indices still to visit. The result is the return code of a failed read
  (0 otherwise), \<open>vlanmc_idx\<close>, \<open>first_unused\<close>, the entry last read, and the chip.
\<close>

fun vlanmc_scan ::
    "chip \<Rightarrow> u16 \<Rightarrow> nat list \<Rightarrow> int \<Rightarrow> u16 list \<Rightarrow> int \<times> nat \<times> int \<times> u16 list \<times> chip" where
  "vlanmc_scan s v [] first_unused vlan_entry =
     (0, RTL8365MB_VLAN_MC_CONF_SIZE, first_unused, vlan_entry, s)"
| "vlanmc_scan s v (vlanmc_idx # rest) first_unused vlan_entry =
     (case regmap_bulk_read s (RTL8365MB_VLAN_MC_CONF_REG vlanmc_idx)
             RTL8365MB_VLAN_MC_CONF_ENTRY_SIZE of
        (ret, buf, s1) \<Rightarrow>
        if ret \<noteq> 0 then (ret, vlanmc_idx, first_unused, buf @ drop (length buf) vlan_entry, s1)
        else
          let evid = FIELD_GET 12 0 (buf ! 3) in
          if evid = v then (0, vlanmc_idx, first_unused, buf, s1)
          else vlanmc_scan s1 v rest
                 (if evid = 0 \<and> first_unused < 0 then int vlanmc_idx else first_unused) buf)"

text \<open>
  Second part, entered when no slot holds the VLAN ID (\<open>vlanmc_idx\<close> is 32): either the
  function returns (\<open>Inl\<close>, with the return code), or a free slot is taken and the
  by-ID entry is read for its members (\<open>Inr\<close>, with \<open>vlanmc_idx\<close>, the entry buffer and
  \<open>vlan4k\<close>).
\<close>

definition vlanmc_new ::
    "chip \<Rightarrow> switchdev_obj_port_vlan \<Rightarrow> int
       \<Rightarrow> int \<times> chip + nat \<times> u16 list \<times> rtl8366_vlan_4k \<times> chip" where
  "vlanmc_new s vlan first_unused =
     (if flags vlan AND BRIDGE_VLAN_INFO_PVID = 0 then Inl (0, s)
      else if first_unused < 0 then Inl (- EINVAL, s)
      else if vid vlan \<le> RTL8365MB_MAX_4K_VID then
        (case rtl8365mb_table_access s RTL8365MB_TABLE_CVLAN RTL8365MB_TABLE_READ (vid vlan)
                [0, 0, 0, 0] of
           (ret, vlan_entry, s1) \<Rightarrow>
           if ret \<noteq> 0 then Inl (ret, s1)
           else Inr (nat first_unused, vlan_entry,
                     rtl8365mb_buf_vlan4k vlan_entry vlan4k_zero, s1))
      else Inr (nat first_unused, [0, 0, 0, 0], vlan4k_zero, s))"

text \<open>
  Third part: the port's PVID and accepted frame type are read, the slot is rewritten,
  then the PVID and the accepted frame type are adjusted. \<open>cpu_ports\<close> is the mask
  \<open>dsa_cpu_ports(ds)\<close>.
\<close>

definition vlanmc_adjust ::
    "chip \<Rightarrow> nat \<Rightarrow> switchdev_obj_port_vlan \<Rightarrow> bool \<Rightarrow> nat \<Rightarrow> nat \<Rightarrow> u32 \<Rightarrow> int \<times> chip" where
  "vlanmc_adjust s port vlan include vlanmc_idx pvid_vlanmc_idx accepted_frame =
     (case
        (if \<not> include then
           (if accepted_frame = RTL8365MB_FRAME_TYPE_ANY_FRAME \<and> pvid_vlanmc_idx = vlanmc_idx
            then (0, RTL8365MB_FRAME_TYPE_TAGGED_ONLY, True, s)
            else (0, accepted_frame, False, s))
         else if flags vlan AND BRIDGE_VLAN_INFO_PVID \<noteq> 0 then
           (case (if accepted_frame = RTL8365MB_FRAME_TYPE_TAGGED_ONLY
                  then (RTL8365MB_FRAME_TYPE_ANY_FRAME, True)
                  else (accepted_frame, False)) of
              (accepted_frame1, changed1) \<Rightarrow>
              if vlanmc_idx \<noteq> pvid_vlanmc_idx then
                (case regmap_update_bits s (RTL8365MB_VLAN_PVID_CTRL_REG port)
                        (RTL8365MB_VLAN_PVID_CTRL_MASK port)
                        (push_bit (RTL8365MB_VLAN_PVID_CTRL_OFFSET port) (of_nat vlanmc_idx)) of
                   (ret, s1) \<Rightarrow> (ret, accepted_frame1, changed1, s1))
              else (0, accepted_frame1, changed1, s))
         else (0, accepted_frame, False, s)) of
        (ret, accepted_frame', accepted_frame_changed, s1) \<Rightarrow>
        if ret \<noteq> 0 then (ret, s1)
        else if accepted_frame_changed
        then regmap_update_bits s1 (RTL8365MB_VLAN_ACCEPT_FRAME_TYPE_REG port)
               (RTL8365MB_VLAN_ACCEPT_FRAME_TYPE_MASK port)
               (push_bit (RTL8365MB_VLAN_ACCEPT_FRAME_TYPE_OFFSET port) accepted_frame')
        else (ret, s1))"

definition vlanmc_commit ::
    "chip \<Rightarrow> u32 \<Rightarrow> nat \<Rightarrow> switchdev_obj_port_vlan \<Rightarrow> bool \<Rightarrow> nat \<Rightarrow> u16 list
       \<Rightarrow> rtl8366_vlan_4k \<Rightarrow> int \<times> chip" where
  "vlanmc_commit s cpu_ports port vlan include vlanmc_idx vlan_entry vlan4k =
     (case regmap_read s (RTL8365MB_VLAN_PVID_CTRL_REG port) of (ret, data, s1) \<Rightarrow>
      if ret \<noteq> 0 then (ret, s1) else
      let pvid_vlanmc_idx = unat (drop_bit (RTL8365MB_VLAN_PVID_CTRL_OFFSET port)
                                    (data AND RTL8365MB_VLAN_PVID_CTRL_MASK port)) in
      (case regmap_read s1 (RTL8365MB_VLAN_ACCEPT_FRAME_TYPE_REG port) of (ret, data, s2) \<Rightarrow>
       if ret \<noteq> 0 then (ret, s2) else
       let accepted_frame = drop_bit (RTL8365MB_VLAN_ACCEPT_FRAME_TYPE_OFFSET port)
                              (data AND RTL8365MB_VLAN_ACCEPT_FRAME_TYPE_MASK port);
           vlanmc = rtl8365mb_buf_vlanmc vlan_entry vlanmc_zero;
           vlanmc = vlanmc\<lparr>member_mc := member_mc vlanmc OR member_4k vlan4k\<rparr>;
           vlanmc = (if include then vlanmc\<lparr>member_mc := member_mc vlanmc OR BIT port\<rparr>
                     else vlanmc\<lparr>member_mc := member_mc vlanmc AND NOT (BIT port)\<rparr>);
           vlanmc = vlanmc\<lparr>vid_mc := vid vlan\<rparr>;
           vlan_entry' = (if \<not> include \<and> ucast (member_mc vlanmc) AND NOT cpu_ports = 0
                          then [0, 0, 0, 0]
                          else rtl8365mb_vlanmc_buf vlanmc vlan_entry)
       in (case regmap_bulk_write s2 (RTL8365MB_VLAN_MC_CONF_REG vlanmc_idx) vlan_entry' of
             (ret, s3) \<Rightarrow>
             if ret \<noteq> 0 then (ret, s3)
             else vlanmc_adjust s3 port vlan include vlanmc_idx pvid_vlanmc_idx
                    accepted_frame)))"

definition rtl8365mb_vlanmc_set ::
    "chip \<Rightarrow> u32 \<Rightarrow> nat \<Rightarrow> switchdev_obj_port_vlan \<Rightarrow> bool \<Rightarrow> int \<times> chip" where
  "rtl8365mb_vlanmc_set s cpu_ports port vlan include =
     (if vid vlan > RTL8365MB_MAX_MC_VID then (- EINVAL, s)
      else
        (case vlanmc_scan s (vid vlan) [1..<RTL8365MB_VLAN_MC_CONF_SIZE] (- 1) [0, 0, 0, 0] of
           (ret, vlanmc_idx, first_unused, vlan_entry, s1) \<Rightarrow>
           if ret \<noteq> 0 then (ret, s1)
           else if vlanmc_idx = RTL8365MB_VLAN_MC_CONF_SIZE then
             (case vlanmc_new s1 vlan first_unused of
                Inl r \<Rightarrow> r
              | Inr (vlanmc_idx', vlan_entry', vlan4k, s2) \<Rightarrow>
                  vlanmc_commit s2 cpu_ports port vlan include vlanmc_idx' vlan_entry' vlan4k)
           else vlanmc_commit s1 cpu_ports port vlan include vlanmc_idx vlan_entry
                  vlan4k_zero))"

definition rtl8365mb_vlan_add ::
    "chip \<Rightarrow> u32 \<Rightarrow> nat \<Rightarrow> switchdev_obj_port_vlan \<Rightarrow> int \<times> chip" where
  "rtl8365mb_vlan_add s cpu_ports port vlan =
     (case rtl8365mb_vlanmc_set s cpu_ports port vlan True of (ret, s1) \<Rightarrow>
      if ret \<noteq> 0 then (ret, s1) else
      (case rtl8365mb_vlan4k_set s1 port vlan True of (ret, s2) \<Rightarrow>
       if ret \<noteq> 0
       then (case rtl8365mb_vlanmc_set s2 cpu_ports port vlan False of (ret2, s3) \<Rightarrow> (ret, s3))
       else (0, s2)))"

text \<open>\<open>rtl8365mb_vlan_del\<close> returns \<open>ret || ret2\<close>, which is 0 or 1 in C.\<close>

definition rtl8365mb_vlan_del ::
    "chip \<Rightarrow> u32 \<Rightarrow> nat \<Rightarrow> switchdev_obj_port_vlan \<Rightarrow> int \<times> chip" where
  "rtl8365mb_vlan_del s cpu_ports port vlan =
     (case rtl8365mb_vlan4k_set s port vlan False of (ret, s1) \<Rightarrow>
      (case rtl8365mb_vlanmc_set s1 cpu_ports port vlan False of (ret2, s2) \<Rightarrow>
         (if ret \<noteq> 0 \<or> ret2 \<noteq> 0 then 1 else 0, s2)))"

text \<open>\<open>rtl8365mb_vlan_init\<close>; \<open>cpus\<close> lists the CPU ports of the switch.\<close>

fun vlan_init_cpus :: "chip \<Rightarrow> nat list \<Rightarrow> switchdev_obj_port_vlan \<Rightarrow> int \<times> chip" where
  "vlan_init_cpus s [] vlan = (0, s)"
| "vlan_init_cpus s (cpu # cpus) vlan =
     (case rtl8365mb_vlan4k_set s cpu vlan True of (ret, s1) \<Rightarrow>
        if ret \<noteq> 0 then (ret, s1) else vlan_init_cpus s1 cpus vlan)"

definition rtl8365mb_vlan_init :: "chip \<Rightarrow> nat list \<Rightarrow> int \<times> chip" where
  "rtl8365mb_vlan_init s cpus =
     (case vlan_init_cpus s cpus \<lparr>vid = 0, flags = BRIDGE_VLAN_INFO_UNTAGGED\<rparr> of
        (ret, s1) \<Rightarrow>
        if ret \<noteq> 0 then (ret, s1) else
        (case regmap_bulk_write s1 (RTL8365MB_VLAN_MC_CONF_REG 0)
                (rtl8365mb_vlanmc_buf (vlanmc_zero\<lparr>vid_mc := 0\<rparr>) [0, 0, 0, 0]) of
           (ret, s2) \<Rightarrow>
           if ret \<noteq> 0 then (ret, s2)
           else regmap_update_bits s2 RTL8365MB_VLAN_CTRL_REG (GENMASK 0 0) (FIELD_PREP 0 0 1)))"

section \<open>MIB counters and statistics\<close>

abbreviation RTL8365MB_MIB_COUNTER_BASE :: u32 where "RTL8365MB_MIB_COUNTER_BASE \<equiv> 0x1000"
abbreviation RTL8365MB_MIB_ADDRESS_REG :: nat where "RTL8365MB_MIB_ADDRESS_REG \<equiv> 0x1004"
abbreviation (input) RTL8365MB_MIB_ADDRESS_PORT_OFFSET :: u32 where
  "RTL8365MB_MIB_ADDRESS_PORT_OFFSET \<equiv> 0x007C"
abbreviation RTL8365MB_MIB_CTRL0_REG :: nat where "RTL8365MB_MIB_CTRL0_REG \<equiv> 0x1005"
abbreviation (input) RTL8365MB_MIB_CTRL0_RESET_MASK :: u32 where "RTL8365MB_MIB_CTRL0_RESET_MASK \<equiv> 0x0002"
abbreviation (input) RTL8365MB_MIB_CTRL0_BUSY_MASK :: u32 where "RTL8365MB_MIB_CTRL0_BUSY_MASK \<equiv> 0x0001"

text \<open>The register number is computed in 32-bit unsigned arithmetic, as in C.\<close>

definition RTL8365MB_MIB_COUNTER_REG :: "u32 \<Rightarrow> nat" where
  "RTL8365MB_MIB_COUNTER_REG x = unat (RTL8365MB_MIB_COUNTER_BASE + x)"

definition RTL8365MB_MIB_ADDRESS :: "nat \<Rightarrow> u32 \<Rightarrow> u32" where
  "RTL8365MB_MIB_ADDRESS p x = drop_bit 2 (RTL8365MB_MIB_ADDRESS_PORT_OFFSET * of_nat p + x)"

text \<open>The loop of \<open>rtl8365mb_mib_counter_read\<close>: \<open>i\<close> counts up, \<open>n\<close> words remain.\<close>

fun mib_read_words :: "chip \<Rightarrow> u32 \<Rightarrow> nat \<Rightarrow> nat \<Rightarrow> u64 \<Rightarrow> int \<times> u64 \<times> chip" where
  "mib_read_words s offset i 0 tmpvalue = (0, tmpvalue, s)"
| "mib_read_words s offset i (Suc n) tmpvalue =
     (case regmap_read s (RTL8365MB_MIB_COUNTER_REG (offset - of_nat i)) of (ret, val, s1) \<Rightarrow>
        if ret \<noteq> 0 then (ret, tmpvalue, s1)
        else mib_read_words s1 offset (Suc i) n
               (push_bit 16 tmpvalue OR ucast (val AND 0xFFFF)))"

text \<open>
  \<open>rtl8365mb_mib_counter_read\<close>; \<open>len\<close> is the parameter \<open>length\<close> of the source. The
  argument \<open>mibvalue\<close> is the content of the destination; it is returned unchanged
  unless the read succeeds.
\<close>

definition rtl8365mb_mib_counter_read ::
    "chip \<Rightarrow> nat \<Rightarrow> u32 \<Rightarrow> u32 \<Rightarrow> u64 \<Rightarrow> int \<times> u64 \<times> chip" where
  "rtl8365mb_mib_counter_read s port offset len mibvalue =
     (case regmap_write s RTL8365MB_MIB_ADDRESS_REG (RTL8365MB_MIB_ADDRESS port offset) of
        (ret, s1) \<Rightarrow>
        if ret \<noteq> 0 then (ret, mibvalue, s1)
        else
        (case regmap_read_poll_timeout s1 RTL8365MB_MIB_CTRL0_REG
                (\<lambda>val. val AND RTL8365MB_MIB_CTRL0_BUSY_MASK = 0) of
           (ret, val, s2) \<Rightarrow>
           if ret \<noteq> 0 then (ret, mibvalue, s2)
           else if val AND RTL8365MB_MIB_CTRL0_RESET_MASK \<noteq> 0 then (- EIO, mibvalue, s2)
           else
             let offset' = (if len = 4 then 3 else (offset + 1) mod 4) in
             (case mib_read_words s2 offset' 0 (unat len) 0 of
                (ret, tmpvalue, s3) \<Rightarrow>
                if ret \<noteq> 0 then (ret, mibvalue, s3) else (0, tmpvalue, s3))))"

text \<open>The array \<open>rtl8365mb_mib_counters\<close>: offset and length of each counter, in the
  order of \<open>enum rtl8365mb_mib_counter_index\<close>.\<close>

definition rtl8365mb_mib_counters :: "(u32 \<times> u32) list" where
  "rtl8365mb_mib_counters =
     [(0, 4), (4, 2), (6, 2), (8, 2), (10, 2), (12, 2), (14, 2), (16, 2), (18, 2), (20, 2),
      (22, 2), (24, 2), (26, 2), (28, 2), (30, 2), (32, 2), (34, 2), (36, 2), (38, 2), (40, 4),
      (44, 2), (46, 2), (48, 2), (50, 2), (52, 2), (54, 2), (56, 2), (58, 2), (60, 4), (64, 2),
      (66, 2), (68, 2), (70, 2), (72, 2), (74, 2), (76, 2), (78, 2), (80, 2), (82, 2), (84, 2),
      (86, 2), (88, 2), (90, 2), (92, 4), (96, 2), (98, 2), (100, 2), (102, 2), (104, 2),
      (106, 2), (108, 2), (110, 2), (112, 2), (114, 2), (116, 2), (118, 2), (120, 2), (122, 2)]"

abbreviation (input) RTL8365MB_MIB_END :: nat where "RTL8365MB_MIB_END \<equiv> 58"

definition RTL8365MB_MIB_ifInOctets :: nat where "RTL8365MB_MIB_ifInOctets = 0"
definition RTL8365MB_MIB_dot3StatsFCSErrors :: nat where "RTL8365MB_MIB_dot3StatsFCSErrors = 1"
definition RTL8365MB_MIB_etherStatsFragments :: nat where "RTL8365MB_MIB_etherStatsFragments = 5"
definition RTL8365MB_MIB_etherStatsJabbers :: nat where "RTL8365MB_MIB_etherStatsJabbers = 6"
definition RTL8365MB_MIB_ifInUcastPkts :: nat where "RTL8365MB_MIB_ifInUcastPkts = 7"
definition RTL8365MB_MIB_etherStatsDropEvents :: nat where "RTL8365MB_MIB_etherStatsDropEvents = 8"
definition RTL8365MB_MIB_ifInMulticastPkts :: nat where "RTL8365MB_MIB_ifInMulticastPkts = 9"
definition RTL8365MB_MIB_ifInBroadcastPkts :: nat where "RTL8365MB_MIB_ifInBroadcastPkts = 10"
definition RTL8365MB_MIB_ifOutOctets :: nat where "RTL8365MB_MIB_ifOutOctets = 28"
definition RTL8365MB_MIB_dot3StatsLateCollisions :: nat where
  "RTL8365MB_MIB_dot3StatsLateCollisions = 32"
definition RTL8365MB_MIB_etherStatsCollisions :: nat where
  "RTL8365MB_MIB_etherStatsCollisions = 33"
definition RTL8365MB_MIB_ifOutDiscards :: nat where "RTL8365MB_MIB_ifOutDiscards = 36"
definition RTL8365MB_MIB_ifOutUcastPkts :: nat where "RTL8365MB_MIB_ifOutUcastPkts = 38"
definition RTL8365MB_MIB_ifOutMulticastPkts :: nat where "RTL8365MB_MIB_ifOutMulticastPkts = 39"
definition RTL8365MB_MIB_ifOutBroadcastPkts :: nat where "RTL8365MB_MIB_ifOutBroadcastPkts = 40"

text \<open>
  Modelled from the spec: \<open>struct rtnl_link_stats64\<close> is declared in a kernel header. The
  record has the fields that \<open>rtl8365mb_stats_update\<close> assigns; the functions below work
  on any extension of it, so the fields the driver never touches are carried along
  unchanged.
\<close>

record rtnl_link_stats64 =
  rx_packets :: u64
  tx_packets :: u64
  rx_bytes :: u64
  tx_bytes :: u64
  rx_errors :: u64
  tx_errors :: u64
  rx_dropped :: u64
  tx_dropped :: u64
  multicast :: u64
  collisions :: u64
  rx_length_errors :: u64
  rx_crc_errors :: u64
  tx_aborted_errors :: u64
  tx_window_errors :: u64

text \<open>The initialiser of \<open>cnt\<close> in \<open>rtl8365mb_stats_update\<close>: 1 marks a counter to read.\<close>

definition stats_required :: "nat list" where
  "stats_required =
     [RTL8365MB_MIB_ifOutOctets, RTL8365MB_MIB_ifOutUcastPkts, RTL8365MB_MIB_ifOutMulticastPkts,
      RTL8365MB_MIB_ifOutBroadcastPkts, RTL8365MB_MIB_ifOutDiscards, RTL8365MB_MIB_ifInOctets,
      RTL8365MB_MIB_ifInUcastPkts, RTL8365MB_MIB_ifInMulticastPkts,
      RTL8365MB_MIB_ifInBroadcastPkts, RTL8365MB_MIB_etherStatsDropEvents,
      RTL8365MB_MIB_etherStatsCollisions, RTL8365MB_MIB_etherStatsFragments,
      RTL8365MB_MIB_etherStatsJabbers, RTL8365MB_MIB_dot3StatsFCSErrors,
      RTL8365MB_MIB_dot3StatsLateCollisions]"

definition stats_cnt_init :: "u64 list" where
  "stats_cnt_init = map (\<lambda>i. if i \<in> set stats_required then 1 else 0) [0..<RTL8365MB_MIB_END]"

text \<open>
  The loop of \<open>rtl8365mb_stats_update\<close> over the counter indices still to visit; \<open>ret\<close>
  is the return code of the last read. The loop stops at the first failed read.
\<close>

fun stats_read_loop :: "chip \<Rightarrow> nat \<Rightarrow> nat list \<Rightarrow> u64 list \<Rightarrow> int \<Rightarrow> int \<times> u64 list \<times> chip" where
  "stats_read_loop s port [] cnt ret = (ret, cnt, s)"
| "stats_read_loop s port (i # rest) cnt ret =
     (if cnt ! i = 0 then stats_read_loop s port rest cnt ret
      else
        (case rtl8365mb_mib_counter_read s port (fst (rtl8365mb_mib_counters ! i))
                (snd (rtl8365mb_mib_counters ! i)) (cnt ! i) of
           (ret', v, s1) \<Rightarrow>
           if ret' \<noteq> 0 then (ret', cnt[i := v], s1)
           else stats_read_loop s1 port rest (cnt[i := v]) ret'))"

text \<open>The assignments to the snapshot, in the order of the source.\<close>

definition stats_assign ::
    "u64 list \<Rightarrow> 'a rtnl_link_stats64_scheme \<Rightarrow> 'a rtnl_link_stats64_scheme" where
  "stats_assign cnt stats =
     (let stats = stats\<lparr>rx_packets := cnt ! RTL8365MB_MIB_ifInUcastPkts
                                         + cnt ! RTL8365MB_MIB_ifInMulticastPkts
                                         + cnt ! RTL8365MB_MIB_ifInBroadcastPkts
                                         - cnt ! RTL8365MB_MIB_ifOutDiscards\<rparr>;
          stats = stats\<lparr>tx_packets := cnt ! RTL8365MB_MIB_ifOutUcastPkts
                                         + cnt ! RTL8365MB_MIB_ifOutMulticastPkts
                                         + cnt ! RTL8365MB_MIB_ifOutBroadcastPkts\<rparr>;
          stats = stats\<lparr>rx_bytes := cnt ! RTL8365MB_MIB_ifInOctets - 4 * rx_packets stats\<rparr>;
          stats = stats\<lparr>tx_bytes := cnt ! RTL8365MB_MIB_ifOutOctets - 4 * tx_packets stats\<rparr>;
          stats = stats\<lparr>rx_dropped := cnt ! RTL8365MB_MIB_etherStatsDropEvents\<rparr>;
          stats = stats\<lparr>tx_dropped := cnt ! RTL8365MB_MIB_ifOutDiscards\<rparr>;
          stats = stats\<lparr>multicast := cnt ! RTL8365MB_MIB_ifInMulticastPkts\<rparr>;
          stats = stats\<lparr>collisions := cnt ! RTL8365MB_MIB_etherStatsCollisions\<rparr>;
          stats = stats\<lparr>rx_length_errors := cnt ! RTL8365MB_MIB_etherStatsFragments
                                               + cnt ! RTL8365MB_MIB_etherStatsJabbers\<rparr>;
          stats = stats\<lparr>rx_crc_errors := cnt ! RTL8365MB_MIB_dot3StatsFCSErrors\<rparr>;
          stats = stats\<lparr>rx_errors := rx_length_errors stats + rx_crc_errors stats\<rparr>;
          stats = stats\<lparr>tx_aborted_errors := cnt ! RTL8365MB_MIB_ifOutDiscards\<rparr>;
          stats = stats\<lparr>tx_window_errors := cnt ! RTL8365MB_MIB_dot3StatsLateCollisions\<rparr>;
          stats = stats\<lparr>tx_errors := tx_aborted_errors stats + tx_window_errors stats\<rparr>
      in stats)"

text \<open>
  \<open>rtl8365mb_stats_update\<close>. \<open>ports\<close> gives the published snapshot of each port
  (\<open>mb->ports[port].stats\<close>). The variable \<open>ret\<close> has no initialiser in the source; the
  first index is marked, so it is assigned in the first iteration, and the model starts
  it at 0. The MIB lock and the snapshot lock are not modelled.
\<close>

definition rtl8365mb_stats_update ::
    "chip \<Rightarrow> (nat \<Rightarrow> 'a rtnl_link_stats64_scheme) \<Rightarrow> nat
       \<Rightarrow> chip \<times> (nat \<Rightarrow> 'a rtnl_link_stats64_scheme)" where
  "rtl8365mb_stats_update s ports port =
     (case stats_read_loop s port [0..<RTL8365MB_MIB_END] stats_cnt_init 0 of
        (ret, cnt, s1) \<Rightarrow>
        if ret \<noteq> 0 then (s1, ports)
        else (s1, ports(port := stats_assign cnt (ports port))))"

section \<open>Interrupt handler\<close>

abbreviation RTL8365MB_INTR_STATUS_REG :: nat where "RTL8365MB_INTR_STATUS_REG \<equiv> 0x1102"
abbreviation (input) RTL8365MB_INTR_LINK_CHANGE_MASK :: u32 where
  "RTL8365MB_INTR_LINK_CHANGE_MASK \<equiv> 0x0001"
abbreviation RTL8365MB_PORT_LINKDOWN_IND_REG :: nat where
  "RTL8365MB_PORT_LINKDOWN_IND_REG \<equiv> 0x1106"
abbreviation RTL8365MB_PORT_LINKUP_IND_REG :: nat where "RTL8365MB_PORT_LINKUP_IND_REG \<equiv> 0x1107"

datatype irqreturn_t = IRQ_NONE | IRQ_HANDLED

definition rtl8365mb_get_and_clear_status_reg :: "chip \<Rightarrow> nat \<Rightarrow> int \<times> u32 \<times> chip" where
  "rtl8365mb_get_and_clear_status_reg s reg =
     (case regmap_read s reg of (ret, val, s1) \<Rightarrow>
        if ret \<noteq> 0 then (ret, val, s1)
        else (case regmap_write s1 reg val of (ret, s2) \<Rightarrow> (ret, val, s2)))"

text \<open>
  The result of the handler: the value returned, the lines whose nested interrupt was
  raised (in order), the return code logged with \<open>dev_err\<close> at the label \<open>out_error\<close>
  if that label was reached, and the chip.
\<close>

record irq_result =
  irq_ret :: irqreturn_t
  irq_lines :: "nat list"
  irq_logged :: "int option"
  irq_chip :: chip

definition irq_out_error :: "int \<Rightarrow> chip \<Rightarrow> irq_result" where
  "irq_out_error ret s =
     \<lparr>irq_ret = IRQ_NONE, irq_lines = [], irq_logged = Some ret, irq_chip = s\<rparr>"

definition irq_dispatch :: "u32 \<Rightarrow> nat \<Rightarrow> chip \<Rightarrow> irq_result" where
  "irq_dispatch line_changes num_ports s =
     (if line_changes = 0
      then \<lparr>irq_ret = IRQ_NONE, irq_lines = [], irq_logged = None, irq_chip = s\<rparr>
      else \<lparr>irq_ret = IRQ_HANDLED,
            irq_lines = filter (\<lambda>line. bit line_changes line) [0..<num_ports],
            irq_logged = None, irq_chip = s\<rparr>)"

definition rtl8365mb_irq :: "chip \<Rightarrow> nat \<Rightarrow> irq_result" where
  "rtl8365mb_irq s num_ports =
     (case rtl8365mb_get_and_clear_status_reg s RTL8365MB_INTR_STATUS_REG of
        (ret, stat, s1) \<Rightarrow>
        if ret \<noteq> 0 then irq_out_error ret s1
        else if stat AND RTL8365MB_INTR_LINK_CHANGE_MASK \<noteq> 0 then
          (case rtl8365mb_get_and_clear_status_reg s1 RTL8365MB_PORT_LINKUP_IND_REG of
             (ret, val, s2) \<Rightarrow>
             if ret \<noteq> 0 then irq_out_error ret s2
             else
               let linkup_ind = FIELD_GET 10 0 val in
               (case rtl8365mb_get_and_clear_status_reg s2 RTL8365MB_PORT_LINKDOWN_IND_REG of
                  (ret, val, s3) \<Rightarrow>
                  if ret \<noteq> 0 then irq_out_error ret s3
                  else
                    let linkdown_ind = FIELD_GET 10 0 val in
                    irq_dispatch (linkup_ind OR linkdown_ind) num_ports s3))
        else irq_dispatch 0 num_ports s1)"

section \<open>Notions used in the statements\<close>

text \<open>A chip after reset, as the model sees it: every register and table row is zero,
  the bus does not fail, nothing has been traced.\<close>

definition chip0 :: chip where
  "chip0 = \<lparr>regs = (\<lambda>r. 0), tables = (\<lambda>t a i. 0), faults = [], trace = []\<rparr>"


text \<open>The bus does not fail and the table engine is not busy, in the way
  \<open>rtl8365mb_table_access\<close> tests it (bit 0 of the LUT register is clear).\<close>

definition idle :: "chip \<Rightarrow> bool" where
  "idle s \<longleftrightarrow> faults s = [] \<and> \<not> bit (regs s RTL8365MB_TABLE_LUT_REG) 0"

text \<open>The value that \<open>rtl8365mb_table_access\<close> writes to the control register when the
  register holds \<open>old\<close>.\<close>

definition table_cmd :: "u16 \<Rightarrow> rtl8365mb_table_op \<Rightarrow> nat \<Rightarrow> u16" where
  "table_cmd old op t =
     ucast ((ucast old AND NOT (GENMASK 3 3 OR GENMASK 2 0))
            OR ((FIELD_PREP 3 3 (table_op_val op) OR FIELD_PREP 2 0 (of_nat t))
                AND (GENMASK 3 3 OR GENMASK 2 0 :: u32)))"

text \<open>
  The writes on the bus that change VLAN state, by what they change: a write command
  for the by-ID (4K) table, a write to a register of a context slot, a write to a
  PVID or accepted-frame-type register of one of the 11 ports. \<open>kinds\<close> lists them for
  a trace, in order.
\<close>

datatype write_kind = ByID | Slot | PortReg

definition kind_of :: "bus_event \<Rightarrow> write_kind option" where
  "kind_of e =
     (case e of
        Rd r \<Rightarrow> None
      | Wr r v \<Rightarrow>
          if r = RTL8365MB_TABLE_CONTROL_REG \<and> bit v 3 \<and> v AND 7 = 3 then Some ByID
          else if RTL8365MB_VLAN_MC_CONF_BASE \<le> r \<and> r < RTL8365MB_VLAN_MC_CONF_BASE + 128
          then Some Slot
          else if (RTL8365MB_VLAN_PVID_CTRL_BASE \<le> r \<and> r < RTL8365MB_VLAN_PVID_CTRL_BASE + 6)
                \<or> (RTL8365MB_VLAN_ACCEPT_FRAME_TYPE_BASE \<le> r
                    \<and> r < RTL8365MB_VLAN_ACCEPT_FRAME_TYPE_BASE + 2)
          then Some PortReg
          else None)"

definition kinds :: "bus_event list \<Rightarrow> write_kind list" where
  "kinds tr = List.map_filter kind_of tr"

text \<open>What the registers say about a port and about a context slot.\<close>

definition port_pvid :: "chip \<Rightarrow> nat \<Rightarrow> nat" where
  "port_pvid s port =
     unat (drop_bit (RTL8365MB_VLAN_PVID_CTRL_OFFSET port)
             (ucast (regs s (RTL8365MB_VLAN_PVID_CTRL_REG port))
                AND RTL8365MB_VLAN_PVID_CTRL_MASK port))"

definition port_accept_frame :: "chip \<Rightarrow> nat \<Rightarrow> u32" where
  "port_accept_frame s port =
     drop_bit (RTL8365MB_VLAN_ACCEPT_FRAME_TYPE_OFFSET port)
       (ucast (regs s (RTL8365MB_VLAN_ACCEPT_FRAME_TYPE_REG port))
          AND RTL8365MB_VLAN_ACCEPT_FRAME_TYPE_MASK port)"

definition mc_entry :: "chip \<Rightarrow> nat \<Rightarrow> u16 list" where
  "mc_entry s i = map (\<lambda>k. regs s (RTL8365MB_VLAN_MC_CONF_REG i + k)) [0..<4]"

definition mc_evid :: "chip \<Rightarrow> nat \<Rightarrow> u16" where
  "mc_evid s i = FIELD_GET 12 0 (regs s (RTL8365MB_VLAN_MC_CONF_REG i + 3))"

text \<open>The slot that holds a VLAN ID, and the first free slot, among the slots 1 to 31.\<close>

definition slot_of :: "chip \<Rightarrow> u16 \<Rightarrow> nat option" where
  "slot_of s v = find (\<lambda>i. mc_evid s i = v) [1..<RTL8365MB_VLAN_MC_CONF_SIZE]"

definition free_slot :: "chip \<Rightarrow> nat option" where
  "free_slot s = find (\<lambda>i. mc_evid s i = 0) [1..<RTL8365MB_VLAN_MC_CONF_SIZE]"

text \<open>The row of the by-ID table for a VLAN ID, as the three words the driver reads.\<close>

definition vlan4k_row :: "chip \<Rightarrow> u16 \<Rightarrow> u16 list" where
  "vlan4k_row s v = map (tables s RTL8365MB_TABLE_CVLAN (unat v)) [0..<3]"

text \<open>The chip after the second half of a table read, and the row that a table write
  stores, as functions of the chip before.\<close>

definition tread_state :: "chip \<Rightarrow> nat \<Rightarrow> u16 \<Rightarrow> nat \<Rightarrow> chip" where
  "tread_state s t i n =
     (let c = table_cmd (regs s RTL8365MB_TABLE_CONTROL_REG) RTL8365MB_TABLE_READ t in
      s\<lparr>regs := (\<lambda>r. if RTL8365MB_TABLE_READ_DATA_REG_BASE \<le> r
                          \<and> r < RTL8365MB_TABLE_READ_DATA_REG_BASE + 10
                       then tables s t (unat i) (r - RTL8365MB_TABLE_READ_DATA_REG_BASE)
                       else ((regs s)(RTL8365MB_TABLE_ACCESS_ADDR_REG := i,
                                      RTL8365MB_TABLE_CONTROL_REG := c)) r),
        trace := trace s @ [Wr RTL8365MB_TABLE_ACCESS_ADDR_REG i,
                            Rd RTL8365MB_TABLE_CONTROL_REG, Wr RTL8365MB_TABLE_CONTROL_REG c,
                            Rd RTL8365MB_TABLE_LUT_REG, Rd RTL8365MB_TABLE_LUT_REG]
                  @ map (\<lambda>k. Rd (RTL8365MB_TABLE_READ_DATA_REG_BASE + k)) [0..<n]\<rparr>)"

definition written_row :: "chip \<Rightarrow> nat \<Rightarrow> u16 list \<Rightarrow> nat \<Rightarrow> u16" where
  "written_row s n val k =
     (if n = 10 \<and> k = 9
      then ucast ((ucast (regs s (RTL8365MB_TABLE_WRITE_DATA_REG_BASE + 9)) AND NOT (GENMASK 3 0))
                  OR (FIELD_PREP 3 0 (ucast (val ! 9)) AND (GENMASK 3 0 :: u32)))
      else if k < n then val ! k
      else regs s (RTL8365MB_TABLE_WRITE_DATA_REG_BASE + k))"

text \<open>A register of the counter window, as a 64-bit value.\<close>

definition mib_window :: "chip \<Rightarrow> u32 \<Rightarrow> u64" where
  "mib_window s x = ucast (regs s (RTL8365MB_MIB_COUNTER_REG x))"

text \<open>A chip whose counter window holds the words 0x1111, 0x2222, 0x3333, 0x4444 at the
  positions 3 down to 0.\<close>

definition mib_chip :: chip where
  "mib_chip = chip0\<lparr>regs := (\<lambda>r. 0)(0x1000 := 0x4444, 0x1001 := 0x3333, 0x1002 := 0x2222,
                                    0x1003 := 0x1111)\<rparr>"

text \<open>The return codes of the counter reads that one run of the loop of
  \<open>rtl8365mb_stats_update\<close> performs, in order.\<close>

fun stats_batch_rets :: "chip \<Rightarrow> nat \<Rightarrow> nat list \<Rightarrow> u64 list \<Rightarrow> int list" where
  "stats_batch_rets s port [] cnt = []"
| "stats_batch_rets s port (i # rest) cnt =
     (if cnt ! i = 0 then stats_batch_rets s port rest cnt
      else
        (case rtl8365mb_mib_counter_read s port (fst (rtl8365mb_mib_counters ! i))
                (snd (rtl8365mb_mib_counters ! i)) (cnt ! i) of
           (ret, v, s1) \<Rightarrow>
           ret # (if ret \<noteq> 0 then [] else stats_batch_rets s1 port rest (cnt[i := v]))))"

text \<open>The snapshot that the assignments of \<open>rtl8365mb_stats_update\<close> produce from the
  counters, built as a whole; \<open>m\<close> stands for the fields the driver does not assign.\<close>

definition stats_snapshot :: "u64 list \<Rightarrow> 'a \<Rightarrow> 'a rtnl_link_stats64_scheme" where
  "stats_snapshot cnt m =
     (let rx = cnt ! RTL8365MB_MIB_ifInUcastPkts + cnt ! RTL8365MB_MIB_ifInMulticastPkts
                 + cnt ! RTL8365MB_MIB_ifInBroadcastPkts - cnt ! RTL8365MB_MIB_ifOutDiscards;
          tx = cnt ! RTL8365MB_MIB_ifOutUcastPkts + cnt ! RTL8365MB_MIB_ifOutMulticastPkts
                 + cnt ! RTL8365MB_MIB_ifOutBroadcastPkts
      in \<lparr>rx_packets = rx, tx_packets = tx,
          rx_bytes = cnt ! RTL8365MB_MIB_ifInOctets - 4 * rx,
          tx_bytes = cnt ! RTL8365MB_MIB_ifOutOctets - 4 * tx,
          rx_errors = cnt ! RTL8365MB_MIB_etherStatsFragments + cnt ! RTL8365MB_MIB_etherStatsJabbers
                        + cnt ! RTL8365MB_MIB_dot3StatsFCSErrors,
          tx_errors = cnt ! RTL8365MB_MIB_ifOutDiscards + cnt ! RTL8365MB_MIB_dot3StatsLateCollisions,
          rx_dropped = cnt ! RTL8365MB_MIB_etherStatsDropEvents,
          tx_dropped = cnt ! RTL8365MB_MIB_ifOutDiscards,
          multicast = cnt ! RTL8365MB_MIB_ifInMulticastPkts,
          collisions = cnt ! RTL8365MB_MIB_etherStatsCollisions,
          rx_length_errors = cnt ! RTL8365MB_MIB_etherStatsFragments
                               + cnt ! RTL8365MB_MIB_etherStatsJabbers,
          rx_crc_errors = cnt ! RTL8365MB_MIB_dot3StatsFCSErrors,
          tx_aborted_errors = cnt ! RTL8365MB_MIB_ifOutDiscards,
          tx_window_errors = cnt ! RTL8365MB_MIB_dot3StatsLateCollisions, \<dots> = m\<rparr>)"

text \<open>The same chip when the bus fails with \<open>-EIO\<close> at its 19th access, which is the first
  access of the fifth counter read of a statistics batch.\<close>

definition fifth_read_fails :: chip where
  "fifth_read_fails = mib_chip\<lparr>faults := [0, 0, 0, 0, 0, 0, 0, 0, 0, 0, 0, 0, 0, 0, 0, 0, 0, 0, - EIO]\<rparr>"

text \<open>A snapshot published earlier.\<close>

definition old_stats :: rtnl_link_stats64 where
  "old_stats = \<lparr>rx_packets = 7, tx_packets = 7, rx_bytes = 7, tx_bytes = 7, rx_errors = 7,
      tx_errors = 7, rx_dropped = 7, tx_dropped = 7, multicast = 7, collisions = 7,
      rx_length_errors = 7, rx_crc_errors = 7, tx_aborted_errors = 7, tx_window_errors = 7\<rparr>"

text \<open>
  The lines the handler finds changed on a chip: when the link-change cause is pending in
  the interrupt status register, the ports indicated in the link-up or link-down
  indicator registers, as a bit mask; none otherwise.
\<close>

definition irq_line_changes :: "chip \<Rightarrow> u32" where
  "irq_line_changes s =
     (if bit (regs s RTL8365MB_INTR_STATUS_REG) 0
      then FIELD_GET 10 0 (ucast (regs s RTL8365MB_PORT_LINKUP_IND_REG))
           OR FIELD_GET 10 0 (ucast (regs s RTL8365MB_PORT_LINKDOWN_IND_REG))
      else 0)"

text \<open>Membership of a port in the by-ID entry of a VLAN, and whether the port sends the
  VLAN untagged, as the driver decodes the row.\<close>

definition vlan4k_member :: "chip \<Rightarrow> u16 \<Rightarrow> nat \<Rightarrow> bool" where
  "vlan4k_member s v p \<longleftrightarrow>
     bit (member_4k (rtl8365mb_buf_vlan4k (vlan4k_row s v) vlan4k_zero)) p"

definition vlan4k_untag :: "chip \<Rightarrow> u16 \<Rightarrow> nat \<Rightarrow> bool" where
  "vlan4k_untag s v p \<longleftrightarrow>
     bit (untag_4k (rtl8365mb_buf_vlan4k (vlan4k_row s v) vlan4k_zero)) p"

text \<open>
  The context slot that \<open>rtl8365mb_vlanmc_set\<close> works on: the slot that holds the VLAN ID
  or, when no slot does and the PVID flag is given, the first free slot.
\<close>

definition target_slot :: "chip \<Rightarrow> switchdev_obj_port_vlan \<Rightarrow> nat option" where
  "target_slot s vlan =
     (case slot_of s (vid vlan) of
        Some i \<Rightarrow> Some i
      | None \<Rightarrow> if flags vlan AND BRIDGE_VLAN_INFO_PVID \<noteq> 0 then free_slot s else None)"

text \<open>The bus accesses made between two states of the chip.\<close>

definition new_trace :: "chip \<Rightarrow> chip \<Rightarrow> bus_event list" where
  "new_trace s s' = drop (length (trace s)) (trace s')"


definition pvid_chip :: chip where
  "pvid_chip = chip0\<lparr>regs := (\<lambda>r. 0)(0x701 := 0x0001, 0x72F := 10)\<rparr>"

text \<open>A chip on which every context slot \<open>i\<close> holds the VLAN ID \<open>100 + i\<close>.\<close>

definition full_chip :: chip where
  "full_chip =
     chip0\<lparr>regs := (\<lambda>r. if RTL8365MB_VLAN_MC_CONF_BASE \<le> r
                            \<and> r < RTL8365MB_VLAN_MC_CONF_BASE + 128 \<and> r mod 4 = 3
                         then of_nat (100 + (r - RTL8365MB_VLAN_MC_CONF_BASE) div 4) else 0)\<rparr>"

text \<open>
  Two orders on the writes that change VLAN state. In the first the by-ID table comes
  before the context slots, which come before the port registers; in the second the
  context slots come before the port registers, which come before the by-ID table.
  A trace follows an order when its writes are sorted by it.
\<close>

fun by_id_first_rank :: "write_kind \<Rightarrow> nat" where
  "by_id_first_rank ByID = 0"
| "by_id_first_rank Slot = 1"
| "by_id_first_rank PortReg = 2"

fun by_id_last_rank :: "write_kind \<Rightarrow> nat" where
  "by_id_last_rank Slot = 0"
| "by_id_last_rank PortReg = 1"
| "by_id_last_rank ByID = 2"

definition by_id_first :: "write_kind list \<Rightarrow> bool" where
  "by_id_first ks \<longleftrightarrow> sorted (map by_id_first_rank ks)"

definition by_id_last :: "write_kind list \<Rightarrow> bool" where
  "by_id_last ks \<longleftrightarrow> sorted (map by_id_last_rank ks)"

text \<open>
  The first failure among the next \<open>k\<close> bus accesses of a fault script: its return code
  and the script that remains after the failing access, or \<open>None\<close> when the \<open>k\<close> accesses
  all succeed.
\<close>

fun first_failure :: "nat \<Rightarrow> int list \<Rightarrow> (int \<times> int list) option" where
  "first_failure 0 fs = None"
| "first_failure (Suc k) [] = None"
| "first_failure (Suc k) (e # fs) = (if e \<noteq> 0 then Some (e, fs) else first_failure k fs)"

text \<open>
  The number of bus accesses that the interrupt handler makes when none of them fails:
  a read and a write of the status register, and the same for the two link indicator
  registers when the link-change cause is pending.
\<close>

definition irq_accesses :: "chip \<Rightarrow> nat" where
  "irq_accesses s = (if bit (regs s RTL8365MB_INTR_STATUS_REG) 0 then 6 else 2)"

text \<open>A chip on which the link-change cause is pending, port 2 went up and port 8 went
  down.\<close>

definition link_chip :: chip where
  "link_chip = chip0\<lparr>regs := (\<lambda>r. 0)(RTL8365MB_INTR_STATUS_REG := 1,
       RTL8365MB_PORT_LINKUP_IND_REG := 4, RTL8365MB_PORT_LINKDOWN_IND_REG := 0x100)\<rparr>"


text \<open>
  The VLAN-state writes made between two states of the chip: the trace of the later state
  extends the trace of the earlier one, and the classified writes among the added accesses
  are \<open>ks\<close>.
\<close>

definition wrote :: "chip \<Rightarrow> chip \<Rightarrow> write_kind list \<Rightarrow> bool" where
  "wrote s s' ks \<longleftrightarrow>
     take (length (trace s)) (trace s') = trace s \<and> kinds (new_trace s s') = ks"

text \<open>
  What is left of a list of writes after one round, a run of slot writes followed by a
  run of port-register writes, is taken off its front.
\<close>

definition after_round :: "write_kind list \<Rightarrow> write_kind list" where
  "after_round ks = dropWhile (\<lambda>k. k = PortReg) (dropWhile (\<lambda>k. k = Slot) ks)"

text \<open>
  The number of bus accesses that succeed before the first failure among the next \<open>k\<close>
  accesses of a fault script; it is \<open>k\<close> when none of them fails.
\<close>

fun ok_prefix :: "nat \<Rightarrow> int list \<Rightarrow> nat" where
  "ok_prefix 0 fs = 0"
| "ok_prefix (Suc k) [] = Suc k"
| "ok_prefix (Suc k) (e # fs) = (if e \<noteq> 0 then 0 else Suc (ok_prefix k fs))"

section \<open>Bit fields\<close>

lemma bit_GENMASK:
  "bit (GENMASK h l :: 'a::len word) n \<longleftrightarrow> l \<le> n \<and> n \<le> h \<and> n < LENGTH('a)"
  by (auto simp: GENMASK_def bit_simps)

lemma bit_FIELD_PREP:
  "bit (FIELD_PREP h l v :: 'a::len word) n
     \<longleftrightarrow> l \<le> n \<and> n \<le> h \<and> n < LENGTH('a) \<and> bit v (n - l)"
  by (auto simp: FIELD_PREP_def bit_GENMASK bit_simps)

lemma bit_FIELD_GET:
  "bit (FIELD_GET h l v :: 'a::len word) n \<longleftrightarrow> n + l \<le> h \<and> bit v (n + l)"
  by (auto simp: FIELD_GET_def bit_GENMASK bit_simps add.commute dest: bit_imp_le_length)

lemma FIELD_FIT_iff:
  "FIELD_FIT h l (v :: 'a::len word)
     \<longleftrightarrow> (\<forall>n. bit v n \<longrightarrow> n + l < LENGTH('a) \<longrightarrow> n + l \<le> h)"
proof -
  have "(\<forall>n. l \<le> n \<and> n < LENGTH('a) \<and> bit v (n - l) \<longrightarrow> n \<le> h)
          \<longleftrightarrow> (\<forall>n. bit v n \<longrightarrow> n + l < LENGTH('a) \<longrightarrow> n + l \<le> h)"
  proof (intro iffI allI impI)
    fix n assume a: "\<forall>n. l \<le> n \<and> n < LENGTH('a) \<and> bit v (n - l) \<longrightarrow> n \<le> h"
      and "bit v n" "n + l < LENGTH('a)"
    with a [rule_format, of "n + l"] show "n + l \<le> h" by simp
  next
    fix n assume a: "\<forall>n. bit v n \<longrightarrow> n + l < LENGTH('a) \<longrightarrow> n + l \<le> h"
      and "l \<le> n \<and> n < LENGTH('a) \<and> bit v (n - l)"
    with a [rule_format, of "n - l"] show "n \<le> h" by simp
  qed
  then show ?thesis
    by (simp add: FIELD_FIT_def bit_eq_iff bit_simps bit_GENMASK) blast
qed

lemma FIELD_FIT_13_0: "FIELD_FIT 13 0 (i::u16) \<longleftrightarrow> unat i < 16384"
proof -
  have "FIELD_FIT 13 0 i \<longleftrightarrow> i AND mask 14 = i"
    by (auto simp add: FIELD_FIT_iff bit_eq_iff bit_simps dest: bit_imp_le_length)
  also have "\<dots> \<longleftrightarrow> i < 2 ^ 14"
    by (rule mask_eq_iff_w2p) (simp add: word_size)
  also have "\<dots> \<longleftrightarrow> i < 16384"
    by simp
  also have "\<dots> \<longleftrightarrow> unat i < 16384"
    by (simp add: word_less_nat_alt)
  finally show ?thesis .
qed

lemma lut_cond: "FIELD_PREP 13 13 (ucast (x::u16) :: u32) = 0 \<longleftrightarrow> \<not> bit x 0"
proof
  assume "FIELD_PREP 13 13 (ucast x :: u32) = 0"
  then have "\<not> bit (FIELD_PREP 13 13 (ucast x :: u32)) 13" by simp
  then show "\<not> bit x 0" by (simp add: bit_FIELD_PREP bit_simps)
next
  assume "\<not> bit x 0"
  then show "FIELD_PREP 13 13 (ucast x :: u32) = 0"
    by (auto simp: bit_eq_iff bit_FIELD_PREP bit_simps)
qed

section \<open>The transport without faults, and the origin of return codes\<close>

lemma next_fault_ok: "faults s = [] \<Longrightarrow> next_fault s = (0, s)"
  by (simp add: next_fault_def)

lemma regmap_read_ok:
  "faults s = [] \<Longrightarrow>
   regmap_read s r = (0, ucast (regs s r), s\<lparr>trace := trace s @ [Rd r]\<rparr>)"
  by (simp add: regmap_read_def next_fault_ok)

lemma regmap_write_ok:
  "faults s = [] \<Longrightarrow> regmap_write s r v =
     (0, let s2 = s\<lparr>regs := (regs s)(r := ucast v), trace := trace s @ [Wr r (ucast v)]\<rparr>
         in if r = RTL8365MB_TABLE_CONTROL_REG then table_engine s2 else s2)"
  by (simp add: regmap_write_def next_fault_ok Let_def)

lemma update_bits_ok:
  "faults s = [] \<Longrightarrow>
   regmap_update_bits s r m v =
     (0, let w = ucast ((ucast (regs s r) AND NOT m) OR (v AND m));
             s2 = s\<lparr>regs := (regs s)(r := w), trace := trace s @ [Rd r, Wr r w]\<rparr>
         in if r = RTL8365MB_TABLE_CONTROL_REG then table_engine s2 else s2)"
  by (simp add: regmap_update_bits_def regmap_read_ok regmap_write_ok Let_def)

lemma poll_reg_ok:
  "faults s = [] \<Longrightarrow> c (ucast (regs s r)) \<Longrightarrow>
   poll_reg n s r c = (0, ucast (regs s r), s\<lparr>trace := trace s @ [Rd r]\<rparr>)"
  by (cases n) (simp_all add: regmap_read_ok)

lemma poll_ok:
  "faults s = [] \<Longrightarrow> c (ucast (regs s r)) \<Longrightarrow>
   regmap_read_poll_timeout s r c = (0, ucast (regs s r), s\<lparr>trace := trace s @ [Rd r]\<rparr>)"
  by (simp add: regmap_read_poll_timeout_def poll_reg_ok)

lemma table_engine_faults [simp]: "faults (table_engine s) = faults s"
  by (simp add: table_engine_def Let_def)

lemma table_engine_trace [simp]: "trace (table_engine s) = trace s"
  by (simp add: table_engine_def Let_def)











section \<open>Table access: validation\<close>





lemma addr_field: "unat (i::u16) < 16384 \<Longrightarrow> ucast (FIELD_PREP 13 0 (ucast i :: u32)) = i"
proof -
  assume "unat i < 16384"
  then have "FIELD_FIT 13 0 i" by (simp add: FIELD_FIT_13_0)
  then have f: "\<forall>n. bit i n \<longrightarrow> n + 0 < LENGTH(16) \<longrightarrow> n + 0 \<le> 13"
    by (simp only: FIELD_FIT_iff)
  have "\<And>n. bit i n \<Longrightarrow> n \<le> 13"
  proof -
    fix n assume b: "bit i n"
    from bit_imp_le_length [OF b] have "n < 16" by simp
    with f b show "n \<le> 13" by simp
  qed
  then show ?thesis
    by (auto simp: bit_eq_iff bit_FIELD_PREP bit_simps dest: bit_imp_le_length)
qed







section \<open>Table access without faults\<close>

lemma ucast_ucast_16_32 [simp]: "(ucast (ucast (x::u16) :: u32) :: u16) = x"
  by (simp add: bit_eq_iff bit_simps)

lemma map_upt_shift: "map f [0..<Suc n] = f 0 # map (\<lambda>k. f (Suc k)) [0..<n]"
  by (simp add: upt_conv_Cons map_Suc_upt [symmetric] del: upt_Suc)

lemma bulk_read_ok:
  "faults s = [] \<Longrightarrow>
   regmap_bulk_read s r n =
     (0, map (\<lambda>k. regs s (r + k)) [0..<n],
      s\<lparr>trace := trace s @ map (\<lambda>k. Rd (r + k)) [0..<n]\<rparr>)"
proof (induction n arbitrary: s r)
  case 0
  then show ?case by simp
next
  case (Suc n)
  let ?s1 = "s\<lparr>trace := trace s @ [Rd r]\<rparr>"
  have f: "faults ?s1 = []" using Suc.prems by simp
  show ?case
    using Suc.prems Suc.IH [OF f, of "Suc r"]
    by (simp add: regmap_read_ok map_upt_shift del: upt_Suc)
qed

lemma bulk_write_ok:
  "faults s = [] \<Longrightarrow> (\<forall>k < length vs. r + k \<noteq> RTL8365MB_TABLE_CONTROL_REG) \<Longrightarrow>
   regmap_bulk_write s r vs =
     (0, s\<lparr>regs := (\<lambda>a. if r \<le> a \<and> a < r + length vs then vs ! (a - r) else regs s a),
            trace := trace s @ map (\<lambda>k. Wr (r + k) (vs ! k)) [0..<length vs]\<rparr>)"
proof (induction vs arbitrary: s r)
  case Nil
  have "(\<lambda>a. if r \<le> a \<and> a < r + length ([]::u16 list) then [] ! (a - r) else regs s a) = regs s"
    by (rule ext) auto
  then show ?case by simp
next
  case (Cons v vs)
  let ?s1 = "s\<lparr>regs := (regs s)(r := v), trace := trace s @ [Wr r v]\<rparr>"
  have f: "faults ?s1 = []" using Cons.prems by simp
  have n: "\<forall>k<length vs. Suc r + k \<noteq> RTL8365MB_TABLE_CONTROL_REG"
    using Cons.prems(2) by auto
  have r0: "r \<noteq> RTL8365MB_TABLE_CONTROL_REG" using Cons.prems(2) by auto
  have w: "regmap_write s r (ucast v) = (0, ?s1)"
    using Cons.prems(1) r0 by (simp add: regmap_write_ok)
  have e: "(\<lambda>a. if Suc r \<le> a \<and> a < Suc r + length vs then vs ! (a - Suc r) else regs ?s1 a)
         = (\<lambda>a. if r \<le> a \<and> a < r + length (v # vs) then (v # vs) ! (a - r) else regs s a)"
    by (rule ext) (auto simp: nth_Cons')
  show ?case
    using Cons.IH [OF f n] w e
    by (simp add: map_upt_shift del: upt_Suc)
qed

lemma bit_table_cmd_3: "bit (table_cmd old op t) 3 \<longleftrightarrow> op = RTL8365MB_TABLE_WRITE"
  by (cases op) (simp_all add: table_cmd_def bit_simps bit_GENMASK bit_FIELD_PREP)

lemma mask3: "(7 :: 'a::len word) = mask 3"
  by (simp add: mask_eq_exp_minus_1)

lemma bit_nat_less_8: "t < 8 \<Longrightarrow> bit (t::nat) n \<longleftrightarrow> n < 3 \<and> bit t n"
proof -
  assume "t < 8"
  then have "take_bit 3 t = t" by (simp add: take_bit_nat_eq_self_iff)
  then show ?thesis by (metis bit_take_bit_iff)
qed

lemma table_cmd_and_7: "t < 8 \<Longrightarrow> unat (table_cmd old op t AND 7) = t"
proof -
  assume t: "t < 8"
  have "table_cmd old op t AND mask 3 = of_nat t"
  proof (rule bit_eqI)
    fix n assume "possible_bit TYPE(u16) n"
    then show "bit (table_cmd old op t AND mask 3) n = bit (of_nat t :: u16) n"
      using bit_nat_less_8 [OF t, of n]
      by (auto simp add: table_cmd_def bit_simps bit_GENMASK bit_FIELD_PREP)
  qed
  then show ?thesis using t by (simp add: unat_of_nat mask3)
qed

lemma idle_faults: "idle s \<Longrightarrow> faults s = []" by (simp add: idle_def)

lemma kinds_Nil [simp]: "kinds [] = []" by (simp add: kinds_def map_filter_simps)
lemma kinds_append [simp]: "kinds (a @ b) = kinds a @ kinds b"
  by (simp add: kinds_def map_filter_def)
lemma kinds_Cons: "kinds (e # es) = (case kind_of e of None \<Rightarrow> kinds es | Some k \<Rightarrow> k # kinds es)"
  by (simp add: kinds_def map_filter_simps split: option.splits)
lemma kinds_Rd [simp]: "kinds (Rd r # es) = kinds es"
  by (simp add: kinds_Cons kind_of_def)
lemma kinds_map_Rd [simp]: "kinds (map (\<lambda>k. Rd (f k)) xs) = []"
  by (induction xs) simp_all

lemma and_3fff: "unat (i::u16) < 16384 \<Longrightarrow> unat (i AND 0x3FFF) = unat i"
proof -
  assume a: "unat i < 16384"
  have m: "(0x3FFF :: u16) = mask 14" by (simp add: mask_eq_exp_minus_1)
  have "i < 16384" using a by (simp add: word_less_nat_alt)
  then have "i < 2 ^ 14" by simp
  then have "i AND mask 14 = i" by (rule less_mask_eq)
  then show ?thesis by (simp only: m)
qed

lemma map_if_upt:
  "m \<le> n \<Longrightarrow> map (\<lambda>k. if k < n then f k else g k) [0..<m] = map f [0..<m]"
  by (rule map_cong) auto

lemma tail_read_ok:
  assumes "idle s" "t < 8" "unat i < 16384" "n \<le> 10"
  shows "table_access_tail n s t RTL8365MB_TABLE_READ i val =
           (0, (let v1 = map (tables s t (unat i)) [0..<n] @ drop n val
                in if n = 10 then v1[9 := v1 ! 9 AND GENMASK 3 0] else v1),
            tread_state s t i n)"
proof -
  let ?c = "table_cmd (regs s RTL8365MB_TABLE_CONTROL_REG) RTL8365MB_TABLE_READ t"
  let ?s1 = "s\<lparr>regs := (regs s)(RTL8365MB_TABLE_ACCESS_ADDR_REG := i),
               trace := trace s @ [Wr RTL8365MB_TABLE_ACCESS_ADDR_REG i]\<rparr>"
  let ?s2 = "table_engine (?s1\<lparr>regs := (regs ?s1)(RTL8365MB_TABLE_CONTROL_REG := ?c),
               trace := trace ?s1 @ [Rd RTL8365MB_TABLE_CONTROL_REG, Wr RTL8365MB_TABLE_CONTROL_REG ?c]\<rparr>)"
  have f: "faults s = []" and l: "\<not> bit (regs s RTL8365MB_TABLE_LUT_REG) 0"
    using assms(1) by (simp_all add: idle_def)
  have w1: "regmap_write s RTL8365MB_TABLE_ACCESS_ADDR_REG (FIELD_PREP 13 0 (ucast i)) = (0, ?s1)"
    using f assms(3) by (simp add: regmap_write_ok addr_field)
  have w2: "regmap_update_bits ?s1 RTL8365MB_TABLE_CONTROL_REG (GENMASK 3 3 OR GENMASK 2 0)
                (FIELD_PREP 3 3 (table_op_val RTL8365MB_TABLE_READ) OR FIELD_PREP 2 0 (of_nat t))
             = (0, ?s2)"
    using f by (simp add: update_bits_ok table_cmd_def Let_def)
  have s2: "?s2 = s\<lparr>regs := (\<lambda>r. if RTL8365MB_TABLE_READ_DATA_REG_BASE \<le> r
                          \<and> r < RTL8365MB_TABLE_READ_DATA_REG_BASE + 10
                       then tables s t (unat i) (r - RTL8365MB_TABLE_READ_DATA_REG_BASE)
                       else ((regs s)(RTL8365MB_TABLE_ACCESS_ADDR_REG := i,
                                      RTL8365MB_TABLE_CONTROL_REG := ?c)) r),
               trace := trace s @ [Wr RTL8365MB_TABLE_ACCESS_ADDR_REG i,
                            Rd RTL8365MB_TABLE_CONTROL_REG, Wr RTL8365MB_TABLE_CONTROL_REG ?c]\<rparr>"
    using assms(2,3)
    by (simp add: table_engine_def Let_def bit_table_cmd_3 table_cmd_and_7 and_3fff cong: if_cong)
  show ?thesis
    unfolding table_access_tail_def w1 
    apply (simp only: prod.case if_False simp_thms w2)
    apply (simp only: s2)
    using f l assms(4)
    apply (simp add: regmap_read_ok poll_ok lut_cond bulk_read_ok tread_state_def Let_def
        map_if_upt cong: if_cong)
    done
qed

lemma tail_write_ok:
  assumes "faults s = []" "t < 8" "unat i < 16384"
  shows "table_access_tail n s t RTL8365MB_TABLE_WRITE i val =
           (0, val,
            s\<lparr>regs := (regs s)(RTL8365MB_TABLE_ACCESS_ADDR_REG := i,
                   RTL8365MB_TABLE_CONTROL_REG :=
                     table_cmd (regs s RTL8365MB_TABLE_CONTROL_REG) RTL8365MB_TABLE_WRITE t),
              tables := (tables s)(t := (tables s t)
                   (unat i := (\<lambda>k. regs s (RTL8365MB_TABLE_WRITE_DATA_REG_BASE + k)))),
              trace := trace s @ [Wr RTL8365MB_TABLE_ACCESS_ADDR_REG i,
                   Rd RTL8365MB_TABLE_CONTROL_REG,
                   Wr RTL8365MB_TABLE_CONTROL_REG
                     (table_cmd (regs s RTL8365MB_TABLE_CONTROL_REG) RTL8365MB_TABLE_WRITE t)]\<rparr>)"
proof -
  let ?c = "table_cmd (regs s RTL8365MB_TABLE_CONTROL_REG) RTL8365MB_TABLE_WRITE t"
  let ?s1 = "s\<lparr>regs := (regs s)(RTL8365MB_TABLE_ACCESS_ADDR_REG := i),
               trace := trace s @ [Wr RTL8365MB_TABLE_ACCESS_ADDR_REG i]\<rparr>"
  let ?s2 = "table_engine (?s1\<lparr>regs := (regs ?s1)(RTL8365MB_TABLE_CONTROL_REG := ?c),
               trace := trace ?s1 @ [Rd RTL8365MB_TABLE_CONTROL_REG, Wr RTL8365MB_TABLE_CONTROL_REG ?c]\<rparr>)"
  have f: "faults s = []" by fact
  have w1: "regmap_write s RTL8365MB_TABLE_ACCESS_ADDR_REG (FIELD_PREP 13 0 (ucast i)) = (0, ?s1)"
    using f assms(3) by (simp add: regmap_write_ok addr_field)
  have w2: "regmap_update_bits ?s1 RTL8365MB_TABLE_CONTROL_REG (GENMASK 3 3 OR GENMASK 2 0)
                (FIELD_PREP 3 3 (table_op_val RTL8365MB_TABLE_WRITE) OR FIELD_PREP 2 0 (of_nat t))
             = (0, ?s2)"
    using f by (simp add: update_bits_ok table_cmd_def Let_def)
  have s2: "?s2 = s\<lparr>regs := (regs s)(RTL8365MB_TABLE_ACCESS_ADDR_REG := i,
                   RTL8365MB_TABLE_CONTROL_REG := ?c),
              tables := (tables s)(t := (tables s t)
                   (unat i := (\<lambda>k. regs s (RTL8365MB_TABLE_WRITE_DATA_REG_BASE + k)))),
              trace := trace s @ [Wr RTL8365MB_TABLE_ACCESS_ADDR_REG i,
                   Rd RTL8365MB_TABLE_CONTROL_REG, Wr RTL8365MB_TABLE_CONTROL_REG ?c]\<rparr>"
    using assms(2,3)
    by (simp add: table_engine_def Let_def bit_table_cmd_3 table_cmd_and_7 and_3fff cong: if_cong)
  show ?thesis
    unfolding table_access_tail_def w1
    apply (simp only: prod.case if_False simp_thms w2)
    apply (simp only: s2)
    apply simp
    done
qed

lemma kind_of_ctrl:
  "t < 8 \<Longrightarrow> kind_of (Wr RTL8365MB_TABLE_CONTROL_REG (table_cmd old op t))
     = (if op = RTL8365MB_TABLE_WRITE \<and> t = 3 then Some ByID else None)"
proof -
  assume t: "t < 8"
  have "table_cmd old op t AND 7 = 3 \<longleftrightarrow> unat (table_cmd old op t AND 7) = unat (3 :: u16)"
    by (simp only: word_unat_eq_iff)
  also have "\<dots> \<longleftrightarrow> t = 3" using t by (simp add: table_cmd_and_7)
  finally show ?thesis by (simp add: kind_of_def bit_table_cmd_3)
qed

lemma kind_of_other:
  "r < RTL8365MB_VLAN_PVID_CTRL_BASE \<Longrightarrow> r \<noteq> RTL8365MB_TABLE_CONTROL_REG \<Longrightarrow> kind_of (Wr r v) = None"
  by (simp add: kind_of_def)

lemma kinds_Wr_None: "kind_of (Wr r v) = None \<Longrightarrow> kinds (Wr r v # es) = kinds es"
  by (simp add: kinds_Cons)

lemma kinds_Wr_Some: "kind_of (Wr r v) = Some k \<Longrightarrow> kinds (Wr r v # es) = k # kinds es"
  by (simp add: kinds_Cons)

lemma kinds_map_Wr_other:
  "(\<forall>k \<in> set xs. f k < RTL8365MB_VLAN_PVID_CTRL_BASE \<and> f k \<noteq> RTL8365MB_TABLE_CONTROL_REG)
     \<Longrightarrow> kinds (map (\<lambda>k. Wr (f k) (g k)) xs) = []"
  by (induction xs) (simp_all add: kinds_Wr_None kind_of_other)

lemma table_read_ok:
  assumes "idle s" "t < RTL8365MB_NUM_TABLES" "unat i < 16384" "esz ! t = n" "n \<le> 10"
  shows "\<exists>s'. rtl8365mb_table_access_sz esz s t RTL8365MB_TABLE_READ i val =
           (0, (let v1 = map (tables s t (unat i)) [0..<n] @ drop n val
                in if n = 10 then v1[9 := v1 ! 9 AND GENMASK 3 0] else v1), s')
          \<and> idle s' \<and> tables s' = tables s
          \<and> (\<forall>r. r \<ge> 0x530 \<longrightarrow> regs s' r = regs s r)
          \<and> (\<exists>tr. trace s' = trace s @ tr \<and> kinds tr = [])"
proof -
  let ?s1 = "s\<lparr>trace := trace s @ [Rd RTL8365MB_TABLE_LUT_REG]\<rparr>"
  have f: "faults s = []" and l: "\<not> bit (regs s RTL8365MB_TABLE_LUT_REG) 0"
    using assms(1) by (simp_all add: idle_def)
  have t8: "t < 8" using assms(2) by (simp add: RTL8365MB_NUM_TABLES_def)
  have p: "regmap_read_poll_timeout s RTL8365MB_TABLE_LUT_REG (\<lambda>lut. FIELD_PREP 13 13 lut = 0)
     = (0, ucast (regs s RTL8365MB_TABLE_LUT_REG), ?s1)"
    using f l by (simp add: poll_ok lut_cond)
  have i1: "idle ?s1" using assms(1) by (simp add: idle_def)
  have r: "rtl8365mb_table_access_sz esz s t RTL8365MB_TABLE_READ i val =
           (0, (let v1 = map (tables s t (unat i)) [0..<n] @ drop n val
                in if n = 10 then v1[9 := v1 ! 9 AND GENMASK 3 0] else v1), tread_state ?s1 t i n)"
    using assms(2,3,4) p tail_read_ok [OF i1 t8 assms(3) assms(5), of val]
    by (simp add: rtl8365mb_table_access_sz_def FIELD_FIT_13_0)
  have "idle (tread_state ?s1 t i n)"
    using assms(1) by (simp add: tread_state_def idle_def Let_def)
  moreover have "tables (tread_state ?s1 t i n) = tables s"
    by (simp add: tread_state_def Let_def)
  moreover have "\<forall>r. r \<ge> 0x530 \<longrightarrow> regs (tread_state ?s1 t i n) r = regs s r"
    by (simp add: tread_state_def Let_def)
  moreover have "\<exists>tr. trace (tread_state ?s1 t i n) = trace s @ tr \<and> kinds tr = []"
    using t8 by (simp add: tread_state_def Let_def kinds_Wr_None kind_of_other kind_of_ctrl)
  ultimately show ?thesis using r by blast
qed

lemma table_write_ok:
  assumes "idle s" "t < RTL8365MB_NUM_TABLES" "unat i < 16384" "esz ! t = n" "n \<le> 10"
    "n \<le> length val"
  shows "\<exists>s'. rtl8365mb_table_access_sz esz s t RTL8365MB_TABLE_WRITE i val = (0, val, s')
          \<and> idle s'
          \<and> tables s' = (tables s)(t := (tables s t)(unat i := written_row s n val))
          \<and> (\<forall>r. r \<ge> 0x530 \<longrightarrow> regs s' r = regs s r)
          \<and> (\<exists>tr. trace s' = trace s @ tr \<and> kinds tr = (if t = 3 then [ByID] else []))"
proof -
  define m where "m = (if n = 10 then 9 else n)"
  define vs where "vs = take m val"
  let ?B = RTL8365MB_TABLE_WRITE_DATA_REG_BASE
  define s1 where "s1 = s\<lparr>regs := (\<lambda>a. if ?B \<le> a \<and> a < ?B + length vs then vs ! (a - ?B) else regs s a),
            trace := trace s @ map (\<lambda>k. Wr (?B + k) (vs ! k)) [0..<length vs]\<rparr>"
  have f: "faults s = []" and l: "\<not> bit (regs s RTL8365MB_TABLE_LUT_REG) 0"
    using assms(1) by (simp_all add: idle_def)
  have t8: "t < 8" using assms(2) by (simp add: RTL8365MB_NUM_TABLES_def)
  have len: "length vs = m" using assms(5,6) by (auto simp: vs_def m_def)
  have m10: "m \<le> 10" using assms(5) by (auto simp: m_def)
  have b: "regmap_bulk_write s ?B vs = (0, s1)"
    unfolding s1_def using m10 by (intro bulk_write_ok [OF f]) (auto simp: len)
  have f1: "faults s1 = []" using f by (simp add: s1_def)
  define w :: u16 where "w = ucast ((ucast (regs s (?B + 9)) AND NOT (GENMASK 3 0))
                  OR (FIELD_PREP 3 0 (ucast (val ! 9)) AND (GENMASK 3 0 :: u32)))"
  define s2 where "s2 = (if n = 10 then s1\<lparr>regs := (regs s1)(?B + 9 := w),
                 trace := trace s1 @ [Rd (?B + 9), Wr (?B + 9) w]\<rparr> else s1)"
  have r9: "n = 10 \<Longrightarrow> regs s1 (?B + 9) = regs s (?B + 9)"
    by (simp add: s1_def len m_def)
  have u: "(if n = 10 then regmap_update_bits s1 (?B + 9) (GENMASK 3 0) (FIELD_PREP 3 0 (ucast (val ! 9)))
            else (0, s1)) = (0, s2)"
    using f1 r9 by (simp add: update_bits_ok Let_def s2_def w_def)
  have f2: "faults s2 = []" using f1 by (simp add: s2_def)
  have regs2: "\<And>k. regs s2 (?B + k) = written_row s n val k"
    using assms(5,6) by (auto simp: written_row_def len s2_def s1_def w_def m_def vs_def)
  have regs2o: "\<And>r. r < ?B \<or> r \<ge> ?B + 10 \<Longrightarrow> regs s2 r = regs s r"
    using assms(5) m10 by (auto simp: len s2_def s1_def)
  have tables2: "tables s2 = tables s" by (simp add: s2_def s1_def)
  have tr2: "\<exists>tr. trace s2 = trace s @ tr \<and> kinds tr = []"
    using m10 by (auto simp: len s2_def s1_def kinds_map_Wr_other kinds_Wr_None kind_of_other)
  define c where "c = table_cmd (regs s2 RTL8365MB_TABLE_CONTROL_REG) RTL8365MB_TABLE_WRITE t"
  define s3 where "s3 = s2\<lparr>regs := (regs s2)(RTL8365MB_TABLE_ACCESS_ADDR_REG := i,
                   RTL8365MB_TABLE_CONTROL_REG := c),
              tables := (tables s2)(t := (tables s2 t)
                   (unat i := (\<lambda>k. regs s2 (RTL8365MB_TABLE_WRITE_DATA_REG_BASE + k)))),
              trace := trace s2 @ [Wr RTL8365MB_TABLE_ACCESS_ADDR_REG i,
                   Rd RTL8365MB_TABLE_CONTROL_REG, Wr RTL8365MB_TABLE_CONTROL_REG c]\<rparr>"
  have tw: "table_access_tail n s2 t RTL8365MB_TABLE_WRITE i val = (0, val, s3)"
    unfolding s3_def c_def by (rule tail_write_ok [OF f2 t8 assms(3)])
  have "rtl8365mb_table_access_sz esz s t RTL8365MB_TABLE_WRITE i val =
          (case regmap_bulk_write s ?B vs of
             (ret, s1) \<Rightarrow>
             if ret \<noteq> 0 then (ret, val, s1)
             else
             (case (if n = 10
                    then regmap_update_bits s1 (?B + 9)
                           (GENMASK 3 0) (FIELD_PREP 3 0 (ucast (val ! 9)))
                    else (ret, s1)) of
                (ret, s2) \<Rightarrow>
                if ret \<noteq> 0 then (ret, val, s2)
                else table_access_tail n s2 t RTL8365MB_TABLE_WRITE i val))"
    using assms(2,3,4)
    by (simp add: rtl8365mb_table_access_sz_def FIELD_FIT_13_0 Let_def vs_def m_def)
  also have "\<dots> = (case (if n = 10
                    then regmap_update_bits s1 (?B + 9)
                           (GENMASK 3 0) (FIELD_PREP 3 0 (ucast (val ! 9)))
                    else (0, s1)) of
                (ret, s2) \<Rightarrow>
                if ret \<noteq> 0 then (ret, val, s2)
                else table_access_tail n s2 t RTL8365MB_TABLE_WRITE i val)"
    by (simp add: b)
  also have "\<dots> = table_access_tail n s2 t RTL8365MB_TABLE_WRITE i val"
    by (simp only: u) simp
  finally have r: "rtl8365mb_table_access_sz esz s t RTL8365MB_TABLE_WRITE i val = (0, val, s3)"
    by (simp only: tw)
  have "idle s3" using f2 l regs2o [of RTL8365MB_TABLE_LUT_REG] by (simp add: idle_def s3_def)
  moreover have "tables s3 = (tables s)(t := (tables s t)(unat i := written_row s n val))"
  proof -
    have "(\<lambda>k. regs s2 (?B + k)) = written_row s n val"
      by (rule ext) (rule regs2)
    then show ?thesis by (simp add: s3_def tables2)
  qed
  moreover have "\<forall>r. r \<ge> 0x530 \<longrightarrow> regs s3 r = regs s r"
    using regs2o by (simp add: s3_def)
  moreover have "\<exists>tr. trace s3 = trace s @ tr \<and> kinds tr = (if t = 3 then [ByID] else [])"
  proof -
    from tr2 obtain tr where tr: "trace s2 = trace s @ tr" "kinds tr = []" by blast
    have "trace s3 = trace s @ (tr @ [Wr RTL8365MB_TABLE_ACCESS_ADDR_REG i,
                   Rd RTL8365MB_TABLE_CONTROL_REG, Wr RTL8365MB_TABLE_CONTROL_REG c])"
      using tr(1) by (simp add: s3_def)
    moreover have "kinds (tr @ [Wr RTL8365MB_TABLE_ACCESS_ADDR_REG i,
                   Rd RTL8365MB_TABLE_CONTROL_REG, Wr RTL8365MB_TABLE_CONTROL_REG c])
           = (if t = 3 then [ByID] else [])"
      using tr(2) t8 by (simp add: c_def kinds_Wr_None kinds_Wr_Some kind_of_other kind_of_ctrl)
    ultimately show ?thesis by blast
  qed
  ultimately show ?thesis using r by blast
qed

lemma low4: "(ucast ((ucast (old::u16) AND NOT (GENMASK 3 0))
                  OR (FIELD_PREP 3 0 (ucast (x::u16)) AND (GENMASK 3 0 :: u32))) :: u16) AND GENMASK 3 0
             = take_bit 4 x"
  by (rule bit_eqI) (auto simp: bit_simps bit_GENMASK bit_FIELD_PREP)

lemma genmask_take_bit_4: "(y::u16) AND GENMASK 3 0 = take_bit 4 y"
  by (rule bit_eqI) (auto simp: bit_simps bit_GENMASK)

text \<open>
  Claim C3. On an idle chip, for a valid table id and index and a row of the table's
  width (at most the ten data registers), a table write followed by a table read of the
  same table and index returns the row that was written; when the width is exactly 10,
  the first nine words come back unchanged and the tenth comes back with only its low
  four bits. The widths are a parameter here; \<open>rtl8365mb_table_access\<close> is the instance
  with the widths of the source.
\<close>

theorem table_write_read_roundtrip:
  assumes "idle s" "table < RTL8365MB_NUM_TABLES" "unat index < 16384"
    "esz ! table = n" "n \<le> 10" "length row = n" "length buf = n"
  shows "\<exists>s1 s2.
           rtl8365mb_table_access_sz esz s table RTL8365MB_TABLE_WRITE index row = (0, row, s1)
         \<and> rtl8365mb_table_access_sz esz s1 table RTL8365MB_TABLE_READ index buf =
             (0, if n = 10 then row[9 := take_bit 4 (row ! 9)] else row, s2)"
proof -
  from table_write_ok [OF assms(1-5), of row] assms(6)
  obtain s1 where w: "rtl8365mb_table_access_sz esz s table RTL8365MB_TABLE_WRITE index row = (0, row, s1)"
    and i1: "idle s1"
    and t1: "tables s1 = (tables s)(table := (tables s table)(unat index := written_row s n row))"
    by auto
  from table_read_ok [OF i1 assms(2-5), of buf]
  obtain s2 where r: "rtl8365mb_table_access_sz esz s1 table RTL8365MB_TABLE_READ index buf =
           (0, (let v1 = map (tables s1 table (unat index)) [0..<n] @ drop n buf
                in if n = 10 then v1[9 := v1 ! 9 AND GENMASK 3 0] else v1), s2)"
    by auto
  have row1: "tables s1 table (unat index) = written_row s n row" by (simp add: t1)
  have v1: "map (tables s1 table (unat index)) [0..<n] @ drop n buf = map (written_row s n row) [0..<n]"
    using assms(7) by (simp add: row1)
  have res: "(let v1 = map (tables s1 table (unat index)) [0..<n] @ drop n buf
                in if n = 10 then v1[9 := v1 ! 9 AND GENMASK 3 0] else v1)
             = (if n = 10 then row[9 := take_bit 4 (row ! 9)] else row)"
  proof (cases "n = 10")
    case False
    have "map (written_row s n row) [0..<n] = map ((!) row) [0..<n]"
      using False by (intro map_cong) (auto simp: written_row_def)
    also have "\<dots> = row" unfolding assms(6) [symmetric] by (rule map_nth)
    finally show ?thesis using False unfolding Let_def v1 by simp
  next
    case True
    have "(map (written_row s n row) [0..<n])[9 := map (written_row s n row) [0..<n] ! 9 AND GENMASK 3 0]
            = row[9 := take_bit 4 (row ! 9)]"
    proof (rule nth_equalityI)
      show "length ((map (written_row s n row) [0..<n])[9 := map (written_row s n row) [0..<n] ! 9 AND GENMASK 3 0])
           = length (row[9 := take_bit 4 (row ! 9)])"
        using assms(6) by simp
    next
      fix k assume "k < length ((map (written_row s n row) [0..<n])[9 := map (written_row s n row) [0..<n] ! 9 AND GENMASK 3 0])"
      then have k: "k < 10" using True by simp
      show "(map (written_row s n row) [0..<n])[9 := map (written_row s n row) [0..<n] ! 9 AND GENMASK 3 0] ! k
            = row[9 := take_bit 4 (row ! 9)] ! k"
        using k True assms(6)
        by (cases "k = 9") (simp_all add: nth_list_update written_row_def low4)
    qed
    with True show ?thesis unfolding Let_def v1 by simp
  qed
  show ?thesis using w r res by auto
qed

theorem table_write_read_roundtrip_witness:
  "(\<exists>s1 s2.
      rtl8365mb_table_access_sz rtl8365mb_table_entry_size chip0 RTL8365MB_TABLE_CVLAN
          RTL8365MB_TABLE_WRITE 10 [0x0104, 0x0002, 0x0001] = (0, [0x0104, 0x0002, 0x0001], s1)
    \<and> rtl8365mb_table_access_sz rtl8365mb_table_entry_size s1 RTL8365MB_TABLE_CVLAN
          RTL8365MB_TABLE_READ 10 [0, 0, 0] = (0, [0x0104, 0x0002, 0x0001], s2))
   \<and> (\<exists>s1 s2.
      rtl8365mb_table_access_sz [0, 0, 0, 3, 10, 0] chip0 RTL8365MB_TABLE_L2
          RTL8365MB_TABLE_WRITE 7 [1, 2, 3, 4, 5, 6, 7, 8, 9, 0xABCD]
        = (0, [1, 2, 3, 4, 5, 6, 7, 8, 9, 0xABCD], s1)
    \<and> rtl8365mb_table_access_sz [0, 0, 0, 3, 10, 0] s1 RTL8365MB_TABLE_L2
          RTL8365MB_TABLE_READ 7 [0, 0, 0, 0, 0, 0, 0, 0, 0, 0]
        = (0, [1, 2, 3, 4, 5, 6, 7, 8, 9, 0x000D], s2))"
  using table_write_read_roundtrip [of chip0 RTL8365MB_TABLE_CVLAN 10 rtl8365mb_table_entry_size 3
      "[0x0104, 0x0002, 0x0001]" "[0, 0, 0]"]
    table_write_read_roundtrip [of chip0 RTL8365MB_TABLE_L2 7 "[0, 0, 0, 3, 10, 0]" 10
      "[1, 2, 3, 4, 5, 6, 7, 8, 9, 0xABCD]" "[0, 0, 0, 0, 0, 0, 0, 0, 0, 0]"]
  by (simp add: idle_def chip0_def RTL8365MB_TABLE_CVLAN_def RTL8365MB_TABLE_L2_def
       RTL8365MB_NUM_TABLES_def rtl8365mb_table_entry_size_def)

section \<open>MIB counters and statistics: properties\<close>

lemma ucast_low16: "(ucast ((ucast (r::u16) :: u32) AND 0xFFFF) :: u64) = ucast r"
proof -
  have m: "(0xFFFF :: u32) = mask 16" by (simp add: mask_eq_exp_minus_1)
  show ?thesis unfolding m
  proof (rule bit_eqI)
    fix n
    show "bit (ucast ((ucast r :: u32) AND mask 16) :: u64) n = bit (ucast r :: u64) n"
      using bit_imp_le_length [of r n] by (auto simp: bit_simps)
  qed
qed

lemma ucast_and_exp: "k < 16 \<Longrightarrow> (ucast (r::u16) :: u32) AND 2 ^ k = 0 \<longleftrightarrow> \<not> bit r k"
proof 
  assume k: "k < 16" and "(ucast r :: u32) AND 2 ^ k = 0"
  then have "\<not> bit ((ucast r :: u32) AND 2 ^ k) k" by simp
  with k show "\<not> bit r k" by (simp add: bit_simps)
next
  assume "k < 16" "\<not> bit r k"
  then show "(ucast r :: u32) AND 2 ^ k = 0"
    by (intro bit_eqI) (auto simp: bit_simps)
qed

lemma ucast_and_1: "(ucast (r::u16) :: u32) AND 1 = 0 \<longleftrightarrow> \<not> bit r 0"
  using ucast_and_exp [of 0 r] by simp

lemma ucast_and_2: "(ucast (r::u16) :: u32) AND 2 = 0 \<longleftrightarrow> \<not> bit r 1"
  using ucast_and_exp [of 1 r] by simp

lemma mib_read_words_ok:
  "faults s = [] \<Longrightarrow>
   mib_read_words s off i n tmp =
     (0, foldl (\<lambda>t k. push_bit 16 t OR ucast (regs s (RTL8365MB_MIB_COUNTER_REG (off - of_nat k))))
           tmp [i..<i + n],
      s\<lparr>trace := trace s @ map (\<lambda>k. Rd (RTL8365MB_MIB_COUNTER_REG (off - of_nat k))) [i..<i + n]\<rparr>)"
proof (induction n arbitrary: s i tmp)
  case 0
  then show ?case by simp
next
  case (Suc n)
  let ?s1 = "s\<lparr>trace := trace s @ [Rd (RTL8365MB_MIB_COUNTER_REG (off - of_nat i))]\<rparr>"
  have f: "faults ?s1 = []" using Suc.prems by simp
  have u: "[i..<Suc (i + n)] = i # [Suc i..<Suc (i + n)]" by (simp add: upt_conv_Cons del: upt_Suc)
  show ?case
    using Suc.prems Suc.IH [OF f, of "Suc i"]
    by (simp add: regmap_read_ok ucast_low16 u del: upt_Suc)
qed

lemma upt_small: "[0..<4] = [0, 1, 2, 3]" "[0..<2] = [0, 1]" "[0..<1] = [0]"
  by (simp_all add: upt_conv_Cons)

text \<open>
  Claim C8. When the bus does not fail and the busy bit is clear at the poll, a counter
  read of width 1, 2 or 4 words at byte offset \<open>offset\<close> fails with \<open>-EIO\<close> if the
  reset bit is set after the poll, leaving the destination as it was. Otherwise it
  succeeds and returns the window registers assembled most significant word first: the
  positions 3, 2, 1, 0 for width 4, and the positions \<open>(offset + 1) mod 4\<close> downwards for
  the widths 2 and 1. The trace shows the registers read, in that order.
\<close>

theorem mib_counter_read_value:
  assumes "faults s = []" and "\<not> bit (regs s RTL8365MB_MIB_CTRL0_REG) 0"
    and "len = 1 \<or> len = 2 \<or> len = 4"
  shows "\<exists>s'. rtl8365mb_mib_counter_read s port offset len mibvalue =
           (if bit (regs s RTL8365MB_MIB_CTRL0_REG) 1 then (- EIO, mibvalue, s')
            else let p = (if len = 4 then 3 else (offset + 1) mod 4) in
              (0, if len = 4 then push_bit 48 (mib_window s' 3) OR push_bit 32 (mib_window s' 2)
                                  OR push_bit 16 (mib_window s' 1) OR mib_window s' 0
                  else if len = 2 then push_bit 16 (mib_window s' p) OR mib_window s' (p - 1)
                  else mib_window s' p, s'))
         \<and> regs s' = (regs s)(RTL8365MB_MIB_ADDRESS_REG := ucast (RTL8365MB_MIB_ADDRESS port offset))
         \<and> trace s' = trace s @ [Wr RTL8365MB_MIB_ADDRESS_REG (ucast (RTL8365MB_MIB_ADDRESS port offset)),
                                  Rd RTL8365MB_MIB_CTRL0_REG]
              @ (if bit (regs s RTL8365MB_MIB_CTRL0_REG) 1 then []
                 else map (\<lambda>k. Rd (RTL8365MB_MIB_COUNTER_REG
                         ((if len = 4 then 3 else (offset + 1) mod 4) - of_nat k))) [0..<unat len])"
proof -
  define a :: u16 where "a = ucast (RTL8365MB_MIB_ADDRESS port offset)"
  define s1 where "s1 = s\<lparr>regs := (regs s)(RTL8365MB_MIB_ADDRESS_REG := a),
                          trace := trace s @ [Wr RTL8365MB_MIB_ADDRESS_REG a]\<rparr>"
  define s2 where "s2 = s1\<lparr>trace := trace s1 @ [Rd RTL8365MB_MIB_CTRL0_REG]\<rparr>"
  define p where "p = (if len = 4 then 3 else (offset + 1) mod 4)"
  define s3 where "s3 = s2\<lparr>trace := trace s2 @
      map (\<lambda>k. Rd (RTL8365MB_MIB_COUNTER_REG (p - of_nat k))) [0..<0 + unat len]\<rparr>"
  have w: "regmap_write s RTL8365MB_MIB_ADDRESS_REG (RTL8365MB_MIB_ADDRESS port offset) = (0, s1)"
    using assms(1) by (simp add: regmap_write_ok s1_def a_def)
  have f1: "faults s1 = []" using assms(1) by (simp add: s1_def)
  have c1: "regs s1 RTL8365MB_MIB_CTRL0_REG = regs s RTL8365MB_MIB_CTRL0_REG" by (simp add: s1_def)
  have pl: "regmap_read_poll_timeout s1 RTL8365MB_MIB_CTRL0_REG
                (\<lambda>val. val AND RTL8365MB_MIB_CTRL0_BUSY_MASK = 0)
            = (0, ucast (regs s RTL8365MB_MIB_CTRL0_REG), s2)"
    using f1 assms(2) by (simp add: poll_ok c1 ucast_and_1 s2_def)
  have f2: "faults s2 = []" using f1 by (simp add: s2_def)
  have rw: "mib_read_words s2 p 0 (unat len) 0 =
     (0, foldl (\<lambda>t k. push_bit 16 t OR ucast (regs s2 (RTL8365MB_MIB_COUNTER_REG (p - of_nat k))))
           0 [0..<0 + unat len], s3)"
    unfolding s3_def by (rule mib_read_words_ok [OF f2])
  have regs3: "regs s3 = regs s2" by (simp add: s3_def)
  show ?thesis
  proof (cases "bit (regs s RTL8365MB_MIB_CTRL0_REG) 1")
    case True
    then have "rtl8365mb_mib_counter_read s port offset len mibvalue = (- EIO, mibvalue, s2)"
      by (simp add: rtl8365mb_mib_counter_read_def w pl ucast_and_2)
    moreover have "regs s2 = (regs s)(RTL8365MB_MIB_ADDRESS_REG := a)"
      by (simp add: s2_def s1_def)
    moreover have "trace s2 = trace s @ [Wr RTL8365MB_MIB_ADDRESS_REG a, Rd RTL8365MB_MIB_CTRL0_REG]"
      by (simp add: s2_def s1_def)
    ultimately show ?thesis using True unfolding a_def by auto
  next
    case False
    then have r: "rtl8365mb_mib_counter_read s port offset len mibvalue =
        (0, foldl (\<lambda>t k. push_bit 16 t OR ucast (regs s2 (RTL8365MB_MIB_COUNTER_REG (p - of_nat k))))
           0 [0..<0 + unat len], s3)"
      by (simp add: rtl8365mb_mib_counter_read_def w pl ucast_and_2 Let_def p_def [symmetric] rw)
    have v: "foldl (\<lambda>t k. push_bit 16 t OR ucast (regs s2 (RTL8365MB_MIB_COUNTER_REG (p - of_nat k))))
           0 [0..<0 + unat len]
        = (if len = 4 then push_bit 48 (mib_window s3 3) OR push_bit 32 (mib_window s3 2)
                                  OR push_bit 16 (mib_window s3 1) OR mib_window s3 0
                  else if len = 2 then push_bit 16 (mib_window s3 p) OR mib_window s3 (p - 1)
                  else mib_window s3 p)"
      using assms(3)
      by (auto simp: mib_window_def regs3 upt_small p_def push_bit_or or.assoc)
    have "regs s3 = (regs s)(RTL8365MB_MIB_ADDRESS_REG := a)"
      by (simp add: s3_def s2_def s1_def)
    moreover have "trace s3 = trace s @ [Wr RTL8365MB_MIB_ADDRESS_REG a, Rd RTL8365MB_MIB_CTRL0_REG]
          @ map (\<lambda>k. Rd (RTL8365MB_MIB_COUNTER_REG (p - of_nat k))) [0..<unat len]"
      by (simp add: s3_def s2_def s1_def)
    ultimately show ?thesis using False r v unfolding a_def p_def Let_def by auto
  qed
qed

theorem mib_counter_read_value_witness:
  "fst (rtl8365mb_mib_counter_read mib_chip 2 0 4 0) = 0
   \<and> fst (snd (rtl8365mb_mib_counter_read mib_chip 2 0 4 0)) = 0x1111222233334444
   \<and> trace (snd (snd (rtl8365mb_mib_counter_read mib_chip 2 0 4 0)))
        = [Wr RTL8365MB_MIB_ADDRESS_REG 0x3E, Rd RTL8365MB_MIB_CTRL0_REG,
           Rd 0x1003, Rd 0x1002, Rd 0x1001, Rd 0x1000]
   \<and> fst (snd (rtl8365mb_mib_counter_read mib_chip 2 4 2 0)) = 0x33334444
   \<and> fst (snd (rtl8365mb_mib_counter_read mib_chip 2 6 2 0)) = 0x11112222
   \<and> rtl8365mb_mib_counter_read (mib_chip\<lparr>regs := (regs mib_chip)(RTL8365MB_MIB_CTRL0_REG := 2)\<rparr>)
           2 0 4 7
      = (- EIO, 7, snd (snd (rtl8365mb_mib_counter_read
            (mib_chip\<lparr>regs := (regs mib_chip)(RTL8365MB_MIB_CTRL0_REG := 2)\<rparr>) 2 0 4 7)))"
proof -
  have c: "faults mib_chip = []" "\<not> bit (regs mib_chip RTL8365MB_MIB_CTRL0_REG) 0"
    by (simp_all add: mib_chip_def chip0_def)
  let ?bad = "mib_chip\<lparr>regs := (regs mib_chip)(RTL8365MB_MIB_CTRL0_REG := 2)\<rparr>"
  have d: "faults ?bad = []" "\<not> bit (regs ?bad RTL8365MB_MIB_CTRL0_REG) 0"
    by (simp_all add: mib_chip_def chip0_def)
  have r: "regs mib_chip = (\<lambda>r. 0)(0x1000 := 0x4444, 0x1001 := 0x3333, 0x1002 := 0x2222,
                                    0x1003 := 0x1111)" "trace mib_chip = []"
    by (simp_all add: mib_chip_def chip0_def)
  from mib_counter_read_value [OF c, of 4 2 0 0]
  obtain s1 where s1: "rtl8365mb_mib_counter_read mib_chip 2 0 4 0 =
       (0, push_bit 48 (mib_window s1 3) OR push_bit 32 (mib_window s1 2)
                                  OR push_bit 16 (mib_window s1 1) OR mib_window s1 0, s1)"
    "regs s1 = (regs mib_chip)(RTL8365MB_MIB_ADDRESS_REG := ucast (RTL8365MB_MIB_ADDRESS 2 0))"
    "trace s1 = trace mib_chip @ [Wr RTL8365MB_MIB_ADDRESS_REG (ucast (RTL8365MB_MIB_ADDRESS 2 0)),
                                  Rd RTL8365MB_MIB_CTRL0_REG]
              @ map (\<lambda>k. Rd (RTL8365MB_MIB_COUNTER_REG (3 - of_nat k))) [0..<unat (4::u32)]"
    by (auto simp: r)
  from mib_counter_read_value [OF c, of 2 2 4 0]
  obtain s2 where s2: "rtl8365mb_mib_counter_read mib_chip 2 4 2 0 =
       (0, push_bit 16 (mib_window s2 ((4 + 1) mod 4)) OR mib_window s2 ((4 + 1) mod 4 - 1), s2)"
    "regs s2 = (regs mib_chip)(RTL8365MB_MIB_ADDRESS_REG := ucast (RTL8365MB_MIB_ADDRESS 2 4))"
    by (auto simp: r)
  from mib_counter_read_value [OF c, of 2 2 6 0]
  obtain s3 where s3: "rtl8365mb_mib_counter_read mib_chip 2 6 2 0 =
       (0, push_bit 16 (mib_window s3 ((6 + 1) mod 4)) OR mib_window s3 ((6 + 1) mod 4 - 1), s3)"
    "regs s3 = (regs mib_chip)(RTL8365MB_MIB_ADDRESS_REG := ucast (RTL8365MB_MIB_ADDRESS 2 6))"
    by (auto simp: r)
  from mib_counter_read_value [OF d, of 4 2 0 7]
  obtain s4 where s4: "rtl8365mb_mib_counter_read ?bad 2 0 4 7 = (- EIO, 7, s4)"
    by (auto simp: r)
  have a: "ucast (RTL8365MB_MIB_ADDRESS 2 0) = (0x3E :: u16)"
    by (simp add: RTL8365MB_MIB_ADDRESS_def)
  show ?thesis
    using s1 s2 s3 s4
    by (simp add: r a mib_window_def RTL8365MB_MIB_COUNTER_REG_def upt_small)
qed

lemma stats_loop_rets:
  "fst (stats_read_loop s port idxs cnt r0) =
     (if stats_batch_rets s port idxs cnt = [] then r0 else last (stats_batch_rets s port idxs cnt))
   \<and> (\<forall>r \<in> set (butlast (stats_batch_rets s port idxs cnt)). r = 0)"
proof (induction idxs arbitrary: s cnt r0)
  case Nil
  then show ?case by simp
next
  case (Cons i rest)
  show ?case
  proof (cases "cnt ! i = 0")
    case True
    then show ?thesis using Cons.IH [of s cnt r0] by simp
  next
    case False
    obtain ret v s1 where r: "rtl8365mb_mib_counter_read s port (fst (rtl8365mb_mib_counters ! i))
                (snd (rtl8365mb_mib_counters ! i)) (cnt ! i) = (ret, v, s1)"
      using prod_cases3 by blast
    show ?thesis
    proof (cases "ret = 0")
      case True
      have a: "stats_read_loop s port (i # rest) cnt r0 = stats_read_loop s1 port rest (cnt[i := v]) 0"
        using False r True by simp
      have b: "stats_batch_rets s port (i # rest) cnt = 0 # stats_batch_rets s1 port rest (cnt[i := v])"
        using False r True by simp
      show ?thesis unfolding a b using Cons.IH [of s1 "cnt[i := v]" 0] by simp
    next
      case F: False
      have a: "stats_read_loop s port (i # rest) cnt r0 = (ret, cnt[i := v], s1)"
        using False r F by simp
      have b: "stats_batch_rets s port (i # rest) cnt = [ret]"
        using False r F by simp
      show ?thesis unfolding a b by simp
    qed
  qed
qed

lemma stats_assign_snapshot:
  "stats_assign cnt st = stats_snapshot cnt (rtnl_link_stats64.more st)"
  by (cases st) (simp add: stats_assign_def stats_snapshot_def Let_def)

lemma stats_fail_iff:
  "(\<exists>r \<in> set (stats_batch_rets s port idxs cnt). r \<noteq> 0)
     \<longleftrightarrow> fst (stats_read_loop s port idxs cnt 0) \<noteq> 0"
proof -
  define rs where "rs = stats_batch_rets s port idxs cnt"
  from stats_loop_rets [of s port idxs cnt 0]
  have a: "fst (stats_read_loop s port idxs cnt 0) = (if rs = [] then 0 else last rs)"
    and b: "\<forall>r \<in> set (butlast rs). r = 0" unfolding rs_def by auto
  show ?thesis unfolding rs_def [symmetric]
  proof (cases "rs = []")
    case True
    then show "(\<exists>r \<in> set rs. r \<noteq> 0) \<longleftrightarrow> fst (stats_read_loop s port idxs cnt 0) \<noteq> 0"
      using a by simp
  next
    case False
    have "set rs = set (butlast rs @ [last rs])"
      by (simp only: append_butlast_last_id [OF False])
    then have "set rs = set (butlast rs) \<union> {last rs}" by simp
    then show "(\<exists>r \<in> set rs. r \<noteq> 0) \<longleftrightarrow> fst (stats_read_loop s port idxs cnt 0) \<noteq> 0"
      using a b False by auto
  qed
qed

text \<open>
  Claim C7. If any counter read of a statistics batch fails, the published snapshots of
  all ports are exactly what they were before the cycle. If every read of the batch
  succeeds, the snapshot of the port is replaced as a whole by the snapshot computed
  from the counters just read: none of the fields the driver maintains keeps its old
  value, and the other ports are untouched.
\<close>

theorem stats_update_no_partial:
  "((\<exists>r \<in> set (stats_batch_rets s port [0..<RTL8365MB_MIB_END] stats_cnt_init). r \<noteq> 0) \<longrightarrow>
      snd (rtl8365mb_stats_update s ports port) = ports)
   \<and> ((\<forall>r \<in> set (stats_batch_rets s port [0..<RTL8365MB_MIB_END] stats_cnt_init). r = 0) \<longrightarrow>
      (\<exists>cnt s'. stats_read_loop s port [0..<RTL8365MB_MIB_END] stats_cnt_init 0 = (0, cnt, s')
         \<and> rtl8365mb_stats_update s ports port =
             (s', ports(port := stats_snapshot cnt (rtnl_link_stats64.more (ports port))))))"
proof -
  define idxs :: "nat list" where "idxs = [0..<RTL8365MB_MIB_END]"
  obtain ret cnt s' where l: "stats_read_loop s port idxs stats_cnt_init 0 = (ret, cnt, s')"
    using prod_cases3 by blast
  have u: "rtl8365mb_stats_update s ports port =
        (if ret \<noteq> 0 then (s', ports) else (s', ports(port := stats_assign cnt (ports port))))"
    unfolding rtl8365mb_stats_update_def idxs_def [symmetric] l by simp
  have f: "(\<exists>r \<in> set (stats_batch_rets s port idxs stats_cnt_init). r \<noteq> 0) \<longleftrightarrow> ret \<noteq> 0"
    using stats_fail_iff [of s port idxs stats_cnt_init] l by simp
  have "(\<exists>r \<in> set (stats_batch_rets s port idxs stats_cnt_init). r \<noteq> 0) \<longrightarrow>
      snd (rtl8365mb_stats_update s ports port) = ports"
    using f u by simp
  moreover have "(\<forall>r \<in> set (stats_batch_rets s port idxs stats_cnt_init). r = 0) \<longrightarrow>
      (\<exists>cnt s'. stats_read_loop s port idxs stats_cnt_init 0 = (0, cnt, s')
         \<and> rtl8365mb_stats_update s ports port =
             (s', ports(port := stats_snapshot cnt (rtnl_link_stats64.more (ports port)))))"
  proof
    assume "\<forall>r \<in> set (stats_batch_rets s port idxs stats_cnt_init). r = 0"
    with f have "ret = 0" by blast
    with l u show "\<exists>cnt s'. stats_read_loop s port idxs stats_cnt_init 0 = (0, cnt, s')
         \<and> rtl8365mb_stats_update s ports port =
             (s', ports(port := stats_snapshot cnt (rtnl_link_stats64.more (ports port))))"
      by (simp add: stats_assign_snapshot)
  qed
  ultimately show ?thesis unfolding idxs_def by blast
qed

lemma poll_reg_eq_read:
  "fst (regmap_read s reg) \<noteq> 0 \<or> cond (fst (snd (regmap_read s reg))) \<Longrightarrow>
   poll_reg n s reg cond = regmap_read s reg"
  by (cases n; cases "regmap_read s reg") auto

lemma upt_58:
  "[0..<58] = [0, 1, 2, 3, 4, 5, 6, 7] @ [8, 9, 10, 11, 12, 13, 14, 15]
     @ [16, 17, 18, 19, 20, 21, 22, 23] @ [24, 25, 26, 27, 28, 29, 30, 31]
     @ [32, 33, 34, 35, 36, 37, 38, 39] @ [40, 41, 42, 43, 44, 45, 46, 47]
     @ [48, 49, 50, 51, 52, 53, 54, 55] @ [56, 57]"
  by (simp add: upt_conv_Cons)

lemma cnt_init: "stats_cnt_init = [1,1,0,0,0,1,1,1,1,1,1,0,0,0,0,0,0,0,0,0,0,0,0,0,0,0,0,0,1,
    0,0,0,1,1,0,0,1,0,1,1,1,0,0,0,0,0,0,0,0,0,0,0,0,0,0,0,0,0]"
  by (simp add: stats_cnt_init_def upt_58 stats_required_def RTL8365MB_MIB_ifInOctets_def
    RTL8365MB_MIB_dot3StatsFCSErrors_def RTL8365MB_MIB_etherStatsFragments_def
    RTL8365MB_MIB_etherStatsJabbers_def RTL8365MB_MIB_ifInUcastPkts_def
    RTL8365MB_MIB_etherStatsDropEvents_def RTL8365MB_MIB_ifInMulticastPkts_def
    RTL8365MB_MIB_ifInBroadcastPkts_def RTL8365MB_MIB_ifOutOctets_def
    RTL8365MB_MIB_dot3StatsLateCollisions_def RTL8365MB_MIB_etherStatsCollisions_def
    RTL8365MB_MIB_ifOutDiscards_def RTL8365MB_MIB_ifOutUcastPkts_def
    RTL8365MB_MIB_ifOutMulticastPkts_def RTL8365MB_MIB_ifOutBroadcastPkts_def)

lemma mib_read_words_num:
  "mib_read_words s off i 4 t = mib_read_words s off i (Suc (Suc (Suc (Suc 0)))) t"
  "mib_read_words s off i 2 t = mib_read_words s off i (Suc (Suc 0)) t"
  by (simp_all add: eval_nat_numeral)

lemmas mib_eval = mib_read_words_num rtl8365mb_mib_counter_read_def regmap_write_def regmap_read_def next_fault_def
  regmap_read_poll_timeout_def poll_reg_eq_read mib_chip_def chip0_def rtl8365mb_mib_counters_def
  RTL8365MB_MIB_COUNTER_REG_def RTL8365MB_MIB_ADDRESS_def Let_def

lemma good_rets: "stats_batch_rets mib_chip 2 [0..<58] stats_cnt_init
    = [0, 0, 0, 0, 0, 0, 0, 0, 0, 0, 0, 0, 0, 0, 0]"
  unfolding upt_58 cnt_init append.simps
  by (simp add: mib_eval)

lemma bad_rets: "stats_batch_rets fifth_read_fails 2 [0..<58] stats_cnt_init = [0, 0, 0, 0, - EIO]"
  unfolding upt_58 cnt_init append.simps
  by (simp add: mib_eval fifth_read_fails_def EIO_def)

lemma good_loop: "fst (snd (stats_read_loop mib_chip 2 [0..<58] stats_cnt_init 0)) =
  [1229801703532086340, 858997828, 0, 0, 0, 858997828, 286335522, 858997828,
  286335522, 858997828, 286335522, 0, 0, 0, 0, 0, 0, 0, 0, 0, 0, 0, 0, 0, 0,
  0, 0, 0, 1229801703532086340, 0, 0, 0, 286335522, 858997828, 0, 0,
  286335522, 0, 286335522, 858997828, 286335522, 0, 0, 0, 0, 0, 0, 0, 0, 0,
  0, 0, 0, 0, 0, 0, 0, 0]"
  unfolding upt_58 cnt_init append.simps
  by (simp add: mib_eval)

theorem stats_update_no_partial_witness:
  "snd (rtl8365mb_stats_update fifth_read_fails (\<lambda>p. old_stats) 2) = (\<lambda>p. old_stats)
   \<and> snd (rtl8365mb_stats_update mib_chip (\<lambda>p. old_stats) 2) 2 =
       \<lparr>rx_packets = 1717995656, tx_packets = 1431668872,
        rx_bytes = 1229801696660103716, tx_bytes = 1229801697805410852,
        rx_errors = 2004331178, tx_errors = 572671044, rx_dropped = 286335522,
        tx_dropped = 286335522, multicast = 858997828, collisions = 858997828,
        rx_length_errors = 1145333350, rx_crc_errors = 858997828,
        tx_aborted_errors = 286335522, tx_window_errors = 286335522\<rparr>
   \<and> snd (rtl8365mb_stats_update mib_chip (\<lambda>p. old_stats) 2) 3 = old_stats"
proof -
  from stats_update_no_partial [of fifth_read_fails 2 "\<lambda>p. old_stats"]
  have a: "snd (rtl8365mb_stats_update fifth_read_fails (\<lambda>p. old_stats) 2) = (\<lambda>p. old_stats)"
    by (simp add: bad_rets EIO_def)
  from stats_update_no_partial [of mib_chip 2 "\<lambda>p. old_stats"]
  obtain cnt s' where l: "stats_read_loop mib_chip 2 [0..<58] stats_cnt_init 0 = (0, cnt, s')"
    and u: "rtl8365mb_stats_update mib_chip (\<lambda>p. old_stats) 2 =
             (s', (\<lambda>p. old_stats)(2 := stats_snapshot cnt (rtnl_link_stats64.more old_stats)))"
    by (auto simp: good_rets)
  from l good_loop have c: "cnt = [1229801703532086340, 858997828, 0, 0, 0, 858997828, 286335522, 858997828,
  286335522, 858997828, 286335522, 0, 0, 0, 0, 0, 0, 0, 0, 0, 0, 0, 0, 0, 0,
  0, 0, 0, 1229801703532086340, 0, 0, 0, 286335522, 858997828, 0, 0,
  286335522, 0, 286335522, 858997828, 286335522, 0, 0, 0, 0, 0, 0, 0, 0, 0,
  0, 0, 0, 0, 0, 0, 0, 0]" by simp
  have b: "stats_snapshot cnt (rtnl_link_stats64.more old_stats) =
       \<lparr>rx_packets = 1717995656, tx_packets = 1431668872,
        rx_bytes = 1229801696660103716, tx_bytes = 1229801697805410852,
        rx_errors = 2004331178, tx_errors = 572671044, rx_dropped = 286335522,
        tx_dropped = 286335522, multicast = 858997828, collisions = 858997828,
        rx_length_errors = 1145333350, rx_crc_errors = 858997828,
        tx_aborted_errors = 286335522, tx_window_errors = 286335522\<rparr>"
    unfolding c
    by (simp add: stats_snapshot_def Let_def RTL8365MB_MIB_ifInOctets_def
    RTL8365MB_MIB_dot3StatsFCSErrors_def RTL8365MB_MIB_etherStatsFragments_def
    RTL8365MB_MIB_etherStatsJabbers_def RTL8365MB_MIB_ifInUcastPkts_def
    RTL8365MB_MIB_etherStatsDropEvents_def RTL8365MB_MIB_ifInMulticastPkts_def
    RTL8365MB_MIB_ifInBroadcastPkts_def RTL8365MB_MIB_ifOutOctets_def
    RTL8365MB_MIB_dot3StatsLateCollisions_def RTL8365MB_MIB_etherStatsCollisions_def
    RTL8365MB_MIB_ifOutDiscards_def RTL8365MB_MIB_ifOutUcastPkts_def
    RTL8365MB_MIB_ifOutMulticastPkts_def RTL8365MB_MIB_ifOutBroadcastPkts_def)
  show ?thesis using a u b by simp
qed

section \<open>Interrupt handler: properties\<close>

lemma and_1_bit0: "(ucast (r::u16) :: u32) AND 1 \<noteq> 0 \<longleftrightarrow> bit r 0"
  using ucast_and_1 [of r] by simp

lemma irq_first_fault:
  "faults s = e # fs \<Longrightarrow> e \<noteq> 0 \<Longrightarrow>
   rtl8365mb_irq s n =
     \<lparr>irq_ret = IRQ_NONE, irq_lines = [], irq_logged = Some e, irq_chip = s\<lparr>faults := fs\<rparr>\<rparr>"
  by (simp add: rtl8365mb_irq_def rtl8365mb_get_and_clear_status_reg_def regmap_read_def
        next_fault_def irq_out_error_def)

lemma first_failure_add:
  "first_failure (a + b) fs =
     (case first_failure a fs of Some x \<Rightarrow> Some x | None \<Rightarrow> first_failure b (drop a fs))"
proof (induction a fs rule: first_failure.induct)
  case (2 k)
  then show ?case by (cases b) simp_all
qed (simp_all split: option.splits)

lemma first_failure_nonzero: "first_failure k fs = Some (e, r) \<Longrightarrow> e \<noteq> 0"
  by (induction k fs rule: first_failure.induct) (auto split: if_splits)

lemma get_and_clear_ff:
  assumes "reg \<noteq> RTL8365MB_TABLE_CONTROL_REG"
  shows "\<exists>v s'. rtl8365mb_get_and_clear_status_reg s reg =
             ((case first_failure 2 (faults s) of Some (e, r) \<Rightarrow> e | None \<Rightarrow> 0), v, s')
           \<and> regs s' = regs s
           \<and> faults s' = (case first_failure 2 (faults s) of Some (e, r) \<Rightarrow> r
                           | None \<Rightarrow> drop 2 (faults s))
           \<and> (first_failure 2 (faults s) = None \<longrightarrow> v = ucast (regs s reg))"
proof (cases "faults s")
  case Nil
  then show ?thesis using assms
    by (simp add: rtl8365mb_get_and_clear_status_reg_def regmap_read_def regmap_write_def
          next_fault_def numeral_2_eq_2 Let_def)
next
  case (Cons a fs)
  show ?thesis
  proof (cases fs)
    case Nil
    then show ?thesis using Cons assms
      by (simp add: rtl8365mb_get_and_clear_status_reg_def regmap_read_def regmap_write_def
            next_fault_def numeral_2_eq_2 Let_def)
  next
    case (Cons b r)
    then show ?thesis using \<open>faults s = a # fs\<close> assms
      by (simp add: rtl8365mb_get_and_clear_status_reg_def regmap_read_def regmap_write_def
            next_fault_def numeral_2_eq_2 Let_def)
  qed
qed

lemma irq_result_cases:
  "irq_logged (rtl8365mb_irq s n) = map_option fst (first_failure (irq_accesses s) (faults s))
   \<and> irq_ret (rtl8365mb_irq s n) =
       (if first_failure (irq_accesses s) (faults s) = None \<and> irq_line_changes s \<noteq> 0
        then IRQ_HANDLED else IRQ_NONE)
   \<and> irq_lines (rtl8365mb_irq s n) =
       (if first_failure (irq_accesses s) (faults s) = None
        then filter (bit (irq_line_changes s)) [0..<n] else [])
   \<and> faults (irq_chip (rtl8365mb_irq s n)) =
       (case first_failure (irq_accesses s) (faults s) of
          Some (e, rest) \<Rightarrow> rest
        | None \<Rightarrow> drop (irq_accesses s) (faults s))"
proof -
  let ?fs = "faults s"
  have six: "first_failure 6 fs =
     (case first_failure 2 fs of Some x \<Rightarrow> Some x
      | None \<Rightarrow> (case first_failure 2 (drop 2 fs) of Some x \<Rightarrow> Some x
                 | None \<Rightarrow> first_failure 2 (drop 4 fs)))" for fs
    using first_failure_add [of 2 4 fs] first_failure_add [of 2 2 "drop 2 fs"]
    by (simp split: option.splits)
  from get_and_clear_ff [of RTL8365MB_INTR_STATUS_REG s] obtain v1 s1 where g1:
    "rtl8365mb_get_and_clear_status_reg s RTL8365MB_INTR_STATUS_REG =
       ((case first_failure 2 ?fs of Some (e, r) \<Rightarrow> e | None \<Rightarrow> 0), v1, s1)"
    "regs s1 = regs s"
    "faults s1 = (case first_failure 2 ?fs of Some (e, r) \<Rightarrow> r | None \<Rightarrow> drop 2 ?fs)"
    "first_failure 2 ?fs = None \<longrightarrow> v1 = ucast (regs s RTL8365MB_INTR_STATUS_REG)"
    by auto
  show ?thesis
  proof (cases "first_failure 2 ?fs")
    case (Some x)
    obtain e r where x: "x = (e, r)" by (cases x)
    have e: "e \<noteq> 0" using Some x first_failure_nonzero by blast
    have k: "first_failure (irq_accesses s) ?fs = Some (e, r)"
      using Some x by (simp add: irq_accesses_def six)
    have "rtl8365mb_irq s n = irq_out_error e s1"
      using g1(1) Some x e by (simp add: rtl8365mb_irq_def)
    then show ?thesis using k g1(3) Some x by (simp add: irq_out_error_def)
  next
    case None
    note n1 = None
    have v1: "v1 = ucast (regs s RTL8365MB_INTR_STATUS_REG)" using g1(4) None by simp
    show ?thesis
    proof (cases "bit (regs s RTL8365MB_INTR_STATUS_REG) 0")
      case False
      then have "rtl8365mb_irq s n = irq_dispatch 0 n s1"
        using g1(1) n1 v1 by (simp add: rtl8365mb_irq_def and_1_bit0)
      then show ?thesis using False n1 g1(3)
        by (simp add: irq_dispatch_def irq_accesses_def irq_line_changes_def)
    next
      case True
      have f1: "faults s1 = drop 2 ?fs" using g1(3) n1 by simp
      have num: "(2::nat) + 2 = 4" "(2::nat) + 4 = 6" by simp_all
      from get_and_clear_ff [of RTL8365MB_PORT_LINKUP_IND_REG s1, unfolded f1 g1(2) drop_drop num]
      obtain v2 s2 where g2:
        "rtl8365mb_get_and_clear_status_reg s1 RTL8365MB_PORT_LINKUP_IND_REG =
           ((case first_failure 2 (drop 2 ?fs) of Some (e, r) \<Rightarrow> e | None \<Rightarrow> 0), v2, s2)"
        "regs s2 = regs s"
        "faults s2 = (case first_failure 2 (drop 2 ?fs) of Some (e, r) \<Rightarrow> r
                      | None \<Rightarrow> drop 4 ?fs)"
        "first_failure 2 (drop 2 ?fs) = None \<longrightarrow> v2 = ucast (regs s RTL8365MB_PORT_LINKUP_IND_REG)"
        by auto
      show ?thesis
      proof (cases "first_failure 2 (drop 2 ?fs)")
        case (Some x)
        obtain e r where x: "x = (e, r)" by (cases x)
        have e: "e \<noteq> 0" using Some x first_failure_nonzero by blast
        have k: "first_failure (irq_accesses s) ?fs = Some (e, r)"
          using Some x n1 True by (simp add: irq_accesses_def six)
        have "rtl8365mb_irq s n = irq_out_error e s2"
          using g1(1) g2(1) n1 v1 True Some x e by (simp add: rtl8365mb_irq_def and_1_bit0)
        then show ?thesis using k g2(3) Some x by (simp add: irq_out_error_def)
      next
        case None
        note n2 = None
        have v2: "v2 = ucast (regs s RTL8365MB_PORT_LINKUP_IND_REG)" using g2(4) None by simp
        have f2: "faults s2 = drop 4 ?fs" using g2(3) n2 by simp
        from get_and_clear_ff [of RTL8365MB_PORT_LINKDOWN_IND_REG s2,
            unfolded f2 g2(2) drop_drop num]
        obtain v3 s3 where g3:
          "rtl8365mb_get_and_clear_status_reg s2 RTL8365MB_PORT_LINKDOWN_IND_REG =
             ((case first_failure 2 (drop 4 ?fs) of Some (e, r) \<Rightarrow> e | None \<Rightarrow> 0), v3, s3)"
          "regs s3 = regs s"
          "faults s3 = (case first_failure 2 (drop 4 ?fs) of Some (e, r) \<Rightarrow> r
                        | None \<Rightarrow> drop 6 ?fs)"
          "first_failure 2 (drop 4 ?fs) = None
             \<longrightarrow> v3 = ucast (regs s RTL8365MB_PORT_LINKDOWN_IND_REG)"
          by auto
        show ?thesis
        proof (cases "first_failure 2 (drop 4 ?fs)")
          case (Some x)
          obtain e r where x: "x = (e, r)" by (cases x)
          have e: "e \<noteq> 0" using Some x first_failure_nonzero by blast
          have k: "first_failure (irq_accesses s) ?fs = Some (e, r)"
            using Some x n1 n2 True by (simp add: irq_accesses_def six)
          have "rtl8365mb_irq s n = irq_out_error e s3"
            using g1(1) g2(1) g3(1) n1 n2 v1 True Some x e
            by (simp add: rtl8365mb_irq_def and_1_bit0)
          then show ?thesis using k g3(3) Some x by (simp add: irq_out_error_def)
        next
          case None
          have v3: "v3 = ucast (regs s RTL8365MB_PORT_LINKDOWN_IND_REG)"
            using g3(4) None by simp
          have k: "first_failure (irq_accesses s) ?fs = None" "irq_accesses s = 6"
            using None n1 n2 True by (simp_all add: irq_accesses_def six)
          have "rtl8365mb_irq s n = irq_dispatch (irq_line_changes s) n s3"
            using g1(1) g2(1) g3(1) n1 n2 None v1 v2 v3 True
            by (simp add: rtl8365mb_irq_def and_1_bit0 irq_line_changes_def)
          then show ?thesis using k g3(3) None by (simp add: irq_dispatch_def)
        qed
      qed
    qed
  qed
qed

lemma ok_prefix_Nil: "ok_prefix k [] = k"
  by (cases k) simp_all

lemma ok_prefix_add:
  "ok_prefix (a + b) fs =
     (case first_failure a fs of Some x \<Rightarrow> ok_prefix a fs
      | None \<Rightarrow> a + ok_prefix b (drop a fs))"
proof (induction a fs rule: first_failure.induct)
  case (2 k)
  then show ?case by (simp add: ok_prefix_Nil)
qed (simp_all split: option.splits)

lemma get_and_clear_trace:
  assumes "reg \<noteq> RTL8365MB_TABLE_CONTROL_REG"
  shows "length (trace (snd (snd (rtl8365mb_get_and_clear_status_reg s reg))))
           = length (trace s) + ok_prefix 2 (faults s)"
proof (cases "faults s")
  case Nil
  then show ?thesis using assms
    by (simp add: rtl8365mb_get_and_clear_status_reg_def regmap_read_def regmap_write_def
          next_fault_def numeral_2_eq_2 Let_def)
next
  case (Cons a fs)
  show ?thesis
  proof (cases fs)
    case Nil
    then show ?thesis using Cons assms
      by (simp add: rtl8365mb_get_and_clear_status_reg_def regmap_read_def regmap_write_def
            next_fault_def numeral_2_eq_2 Let_def)
  next
    case (Cons b r)
    then show ?thesis using \<open>faults s = a # fs\<close> assms
      by (simp add: rtl8365mb_get_and_clear_status_reg_def regmap_read_def regmap_write_def
            next_fault_def numeral_2_eq_2 Let_def)
  qed
qed

lemma irq_trace_length:
  "length (trace (irq_chip (rtl8365mb_irq s n)))
     = length (trace s) + ok_prefix (irq_accesses s) (faults s)"
proof -
  let ?fs = "faults s"
  have ok6: "ok_prefix 6 fs =
     (case first_failure 2 fs of Some x \<Rightarrow> ok_prefix 2 fs
      | None \<Rightarrow> (case first_failure 2 (drop 2 fs) of Some x \<Rightarrow> 2 + ok_prefix 2 (drop 2 fs)
                 | None \<Rightarrow> 4 + ok_prefix 2 (drop 4 fs)))" for fs
    using ok_prefix_add [of 2 4 fs] ok_prefix_add [of 2 2 "drop 2 fs"]
    by (simp split: option.splits)
  have ok2: "first_failure 2 fs = None \<Longrightarrow> ok_prefix 2 fs = 2" for fs
    using ok_prefix_add [of 2 0 fs] by simp
  from get_and_clear_ff [of RTL8365MB_INTR_STATUS_REG s] obtain v1 s1 where g1:
    "rtl8365mb_get_and_clear_status_reg s RTL8365MB_INTR_STATUS_REG =
       ((case first_failure 2 ?fs of Some (e, r) \<Rightarrow> e | None \<Rightarrow> 0), v1, s1)"
    "regs s1 = regs s"
    "faults s1 = (case first_failure 2 ?fs of Some (e, r) \<Rightarrow> r | None \<Rightarrow> drop 2 ?fs)"
    "first_failure 2 ?fs = None \<longrightarrow> v1 = ucast (regs s RTL8365MB_INTR_STATUS_REG)"
    by auto
  have t1: "length (trace s1) = length (trace s) + ok_prefix 2 ?fs"
    using get_and_clear_trace [of RTL8365MB_INTR_STATUS_REG s] unfolding g1(1) by simp
  show ?thesis
  proof (cases "first_failure 2 ?fs")
    case (Some x)
    obtain e r where x: "x = (e, r)" by (cases x)
    have e: "e \<noteq> 0" using Some x first_failure_nonzero by blast
    have k: "ok_prefix (irq_accesses s) ?fs = ok_prefix 2 ?fs"
      using Some by (simp add: irq_accesses_def ok6)
    have "rtl8365mb_irq s n = irq_out_error e s1"
      using g1(1) Some x e by (simp add: rtl8365mb_irq_def)
    then show ?thesis using k t1 by (simp add: irq_out_error_def)
  next
    case None
    note n1 = None
    have v1: "v1 = ucast (regs s RTL8365MB_INTR_STATUS_REG)" using g1(4) None by simp
    have t1': "length (trace s1) = length (trace s) + 2" using t1 ok2 [OF n1] by simp
    show ?thesis
    proof (cases "bit (regs s RTL8365MB_INTR_STATUS_REG) 0")
      case False
      then have "rtl8365mb_irq s n = irq_dispatch 0 n s1"
        using g1(1) n1 v1 by (simp add: rtl8365mb_irq_def and_1_bit0)
      then show ?thesis using False t1 by (simp add: irq_dispatch_def irq_accesses_def)
    next
      case True
      have f1: "faults s1 = drop 2 ?fs" using g1(3) n1 by simp
      have num: "(2::nat) + 2 = 4" "(2::nat) + 4 = 6" by simp_all
      from get_and_clear_ff [of RTL8365MB_PORT_LINKUP_IND_REG s1, unfolded f1 g1(2) drop_drop num]
      obtain v2 s2 where g2:
        "rtl8365mb_get_and_clear_status_reg s1 RTL8365MB_PORT_LINKUP_IND_REG =
           ((case first_failure 2 (drop 2 ?fs) of Some (e, r) \<Rightarrow> e | None \<Rightarrow> 0), v2, s2)"
        "faults s2 = (case first_failure 2 (drop 2 ?fs) of Some (e, r) \<Rightarrow> r
                      | None \<Rightarrow> drop 4 ?fs)"
        by auto
      have t2: "length (trace s2) = length (trace s) + 2 + ok_prefix 2 (drop 2 ?fs)"
        using get_and_clear_trace [of RTL8365MB_PORT_LINKUP_IND_REG s1] t1'
        unfolding g2(1) f1 by simp
      show ?thesis
      proof (cases "first_failure 2 (drop 2 ?fs)")
        case (Some x)
        obtain e r where x: "x = (e, r)" by (cases x)
        have e: "e \<noteq> 0" using Some x first_failure_nonzero by blast
        have k: "ok_prefix (irq_accesses s) ?fs = 2 + ok_prefix 2 (drop 2 ?fs)"
          using Some n1 True by (simp add: irq_accesses_def ok6)
        have "rtl8365mb_irq s n = irq_out_error e s2"
          using g1(1) g2(1) n1 v1 True Some x e by (simp add: rtl8365mb_irq_def and_1_bit0)
        then show ?thesis using k t2 by (simp add: irq_out_error_def)
      next
        case None
        note n2 = None
        have f2: "faults s2 = drop 4 ?fs" using g2(2) n2 by simp
        have t2': "length (trace s2) = length (trace s) + 4" using t2 ok2 [OF n2] by simp
        obtain r3 v3 s3 where g3:
          "rtl8365mb_get_and_clear_status_reg s2 RTL8365MB_PORT_LINKDOWN_IND_REG = (r3, v3, s3)"
          using prod_cases3 by blast
        have t3: "length (trace s3) = length (trace s) + 4 + ok_prefix 2 (drop 4 ?fs)"
          using get_and_clear_trace [of RTL8365MB_PORT_LINKDOWN_IND_REG s2] t2'
          unfolding g3 f2 by simp
        have k: "ok_prefix (irq_accesses s) ?fs = 4 + ok_prefix 2 (drop 4 ?fs)"
          using n1 n2 True by (simp add: irq_accesses_def ok6)
        have "irq_chip (rtl8365mb_irq s n) = s3"
          using g1(1) g2(1) g3 n1 n2 v1 True
          by (simp add: rtl8365mb_irq_def and_1_bit0 irq_out_error_def irq_dispatch_def Let_def)
        then show ?thesis using k t3 by simp
      qed
    qed
  qed
qed

text \<open>
  Claim C9. The handler reports the interrupt as handled exactly when none of its register
  accesses fails and some line changed state (link up or link down indicated for a port
  while the link-change cause is pending); the child lines raised are then the changed
  lines among the ports. In every other case it reports the interrupt as unclaimed: when
  no line changed, and when any of its accesses fails. On the first failing access, whichever
  it is, the handler logs the error code of that access, raises no line and makes no
  further access: the accesses it has made are the ones that succeeded before the failing
  one, and the fault script left is the one that follows the failing access.
\<close>

theorem irq_return_value:
  "irq_logged (rtl8365mb_irq s n) = map_option fst (first_failure (irq_accesses s) (faults s))
   \<and> irq_ret (rtl8365mb_irq s n) =
       (if first_failure (irq_accesses s) (faults s) = None \<and> irq_line_changes s \<noteq> 0
        then IRQ_HANDLED else IRQ_NONE)
   \<and> irq_lines (rtl8365mb_irq s n) =
       (if first_failure (irq_accesses s) (faults s) = None
        then filter (bit (irq_line_changes s)) [0..<n] else [])
   \<and> faults (irq_chip (rtl8365mb_irq s n)) =
       (case first_failure (irq_accesses s) (faults s) of
          Some (e, rest) \<Rightarrow> rest
        | None \<Rightarrow> drop (irq_accesses s) (faults s))
   \<and> length (trace (irq_chip (rtl8365mb_irq s n))) =
       length (trace s) + ok_prefix (irq_accesses s) (faults s)"
  using irq_result_cases [of s n] irq_trace_length [of s n] by simp

text \<open>
  The handler on a chip whose first register access fails with \<open>-EIO\<close>: the failure is
  logged and the interrupt is reported as not handled.
\<close>

theorem irq_failure_counterexample:
  "irq_logged (rtl8365mb_irq (chip0\<lparr>faults := [- EIO]\<rparr>) 11) = Some (- EIO)
   \<and> irq_ret (rtl8365mb_irq (chip0\<lparr>faults := [- EIO]\<rparr>) 11) = IRQ_NONE
   \<and> irq_ret (rtl8365mb_irq (chip0\<lparr>faults := [- EIO]\<rparr>) 11) \<noteq> IRQ_HANDLED"
  by (simp add: irq_first_fault chip0_def EIO_def)

theorem irq_return_value_witness:
  "irq_ret (rtl8365mb_irq (chip0\<lparr>faults := [- EIO]\<rparr>) 11) = IRQ_NONE
   \<and> irq_logged (rtl8365mb_irq (chip0\<lparr>faults := [- EIO]\<rparr>) 11) = Some (- EIO)
   \<and> irq_ret (rtl8365mb_irq (link_chip\<lparr>faults := [0, - EIO, 0, 7]\<rparr>) 11) = IRQ_NONE
   \<and> irq_logged (rtl8365mb_irq (link_chip\<lparr>faults := [0, - EIO, 0, 7]\<rparr>) 11) = Some (- EIO)
   \<and> irq_lines (rtl8365mb_irq (link_chip\<lparr>faults := [0, - EIO, 0, 7]\<rparr>) 11) = []
   \<and> faults (irq_chip (rtl8365mb_irq (link_chip\<lparr>faults := [0, - EIO, 0, 7]\<rparr>) 11)) = [0, 7]
   \<and> length (trace (irq_chip (rtl8365mb_irq (link_chip\<lparr>faults := [0, - EIO, 0, 7]\<rparr>) 11)))
       = 1
   \<and> irq_ret (rtl8365mb_irq (link_chip\<lparr>faults := [0, 0, 0, 0, 0, - ETIMEDOUT]\<rparr>) 11)
       = IRQ_NONE
   \<and> irq_logged (rtl8365mb_irq (link_chip\<lparr>faults := [0, 0, 0, 0, 0, - ETIMEDOUT]\<rparr>) 11)
       = Some (- ETIMEDOUT)
   \<and> irq_ret (rtl8365mb_irq chip0 11) = IRQ_NONE
   \<and> irq_logged (rtl8365mb_irq chip0 11) = None
   \<and> irq_ret (rtl8365mb_irq link_chip 11) = IRQ_HANDLED
   \<and> irq_logged (rtl8365mb_irq link_chip 11) = None
   \<and> irq_lines (rtl8365mb_irq link_chip 11) = [2, 8]"
proof -
  have l: "irq_line_changes (link_chip\<lparr>faults := fs\<rparr>) = 0x104" for fs
    by (simp add: link_chip_def chip0_def irq_line_changes_def FIELD_GET_def GENMASK_def
          mask_eq_exp_minus_1)
  have l0: "irq_line_changes link_chip = 0x104"
    using l [of "[]"] by (simp add: link_chip_def chip0_def)
  have k: "irq_accesses (link_chip\<lparr>faults := fs\<rparr>) = 6" "irq_accesses link_chip = 6"
      "irq_accesses (chip0\<lparr>faults := fs\<rparr>) = 2" "irq_accesses chip0 = 2" for fs
    by (simp_all add: irq_accesses_def link_chip_def chip0_def)
  have f: "first_failure 2 [- EIO] = Some (- EIO, [])"
      "first_failure 6 [0, - EIO, 0, 7] = Some (- EIO, [0, 7])"
      "first_failure 6 [0, 0, 0, 0, 0, - ETIMEDOUT] = Some (- ETIMEDOUT, [])"
      "first_failure 2 [] = None" "first_failure 6 [] = None"
    by (simp_all add: eval_nat_numeral EIO_def ETIMEDOUT_def)
  have z: "faults chip0 = []" "faults link_chip = []" "irq_line_changes chip0 = 0"
    by (simp_all add: link_chip_def chip0_def irq_line_changes_def)
  have o: "ok_prefix 2 [- EIO] = 0" "ok_prefix 6 [0, - EIO, 0, 7] = 1"
      "ok_prefix 6 [0, 0, 0, 0, 0, - ETIMEDOUT] = 5" "ok_prefix 2 [] = 2" "ok_prefix 6 [] = 6"
    by (simp_all add: eval_nat_numeral EIO_def ETIMEDOUT_def)
  have t: "trace (link_chip\<lparr>faults := fs\<rparr>) = []" for fs
    by (simp add: link_chip_def chip0_def)
  show ?thesis
    using irq_return_value [of "chip0\<lparr>faults := [- EIO]\<rparr>" 11]
      irq_return_value [of "link_chip\<lparr>faults := [0, - EIO, 0, 7]\<rparr>" 11]
      irq_return_value [of "link_chip\<lparr>faults := [0, 0, 0, 0, 0, - ETIMEDOUT]\<rparr>" 11]
      irq_return_value [of chip0 11] irq_return_value [of link_chip 11]
    by (simp add: l l0 k f z o t upt_conv_Cons)
qed

section \<open>VLAN operations on a chip whose bus does not fail\<close>

lemma mc_evid_trace [simp]: "mc_evid (s\<lparr>trace := t\<rparr>) i = mc_evid s i"
  by (simp add: mc_evid_def)

lemma mc_entry_trace [simp]: "mc_entry (s\<lparr>trace := t\<rparr>) i = mc_entry s i"
  by (simp add: mc_entry_def)

lemma mc_entry_evid: "FIELD_GET 12 0 (mc_entry s i ! 3) = mc_evid s i"
  by (simp add: mc_entry_def mc_evid_def del: upt_Suc)

lemma bulk_read_slot:
  "faults s = [] \<Longrightarrow>
   regmap_bulk_read s (RTL8365MB_VLAN_MC_CONF_REG i) 4 =
     (0, mc_entry s i,
      s\<lparr>trace := trace s @ map (\<lambda>k. Rd (RTL8365MB_VLAN_MC_CONF_REG i + k)) [0..<4]\<rparr>)"
  using bulk_read_ok [of s "RTL8365MB_VLAN_MC_CONF_REG i" 4] by (simp add: mc_entry_def)

text \<open>The loop over the slots on a chip whose bus does not fail.\<close>

lemma scan_found:
  "faults s = [] \<Longrightarrow> find (\<lambda>i. mc_evid s i = v) idxs = Some i \<Longrightarrow>
   \<exists>fu' s'. vlanmc_scan s v idxs fu buf = (0, i, fu', mc_entry s i, s')
     \<and> regs s' = regs s \<and> tables s' = tables s \<and> faults s' = []
     \<and> (\<exists>tr. trace s' = trace s @ tr \<and> kinds tr = [])"
proof (induction idxs arbitrary: s fu buf)
  case Nil
  then show ?case by simp
next
  case (Cons j idxs)
  let ?s1 = "s\<lparr>trace := trace s @ map (\<lambda>k. Rd (RTL8365MB_VLAN_MC_CONF_REG j + k)) [0..<4]\<rparr>"
  show ?case
  proof (cases "mc_evid s j = v")
    case True
    then have "i = j" using Cons.prems(2) by simp
    then show ?thesis using True Cons.prems(1)
      by (simp add: bulk_read_slot mc_entry_evid Let_def del: upt_Suc)
  next
    case False
    then have f: "find (\<lambda>i. mc_evid ?s1 i = v) idxs = Some i" using Cons.prems(2) by simp
    have fs: "faults ?s1 = []" using Cons.prems(1) by simp
    from Cons.IH [OF fs f]
    obtain fu' s' tr where
      "vlanmc_scan ?s1 v idxs (if mc_evid s j = 0 \<and> fu < 0 then int j else fu) (mc_entry s j)
         = (0, i, fu', mc_entry s i, s')"
      "regs s' = regs s" "tables s' = tables s" "faults s' = []"
      "trace s' = trace ?s1 @ tr" "kinds tr = []"
      by fastforce
    then show ?thesis using False Cons.prems(1)
      by (simp add: bulk_read_slot mc_entry_evid Let_def del: upt_Suc)
  qed
qed

lemma scan_not_found:
  "faults s = [] \<Longrightarrow> find (\<lambda>i. mc_evid s i = v) idxs = None \<Longrightarrow>
   \<exists>e s'. vlanmc_scan s v idxs fu buf =
       (0, 32, (if fu < 0 then (case find (\<lambda>i. mc_evid s i = 0) idxs of
                                  Some i \<Rightarrow> int i | None \<Rightarrow> fu) else fu), e, s')
     \<and> regs s' = regs s \<and> tables s' = tables s \<and> faults s' = []
     \<and> (\<exists>tr. trace s' = trace s @ tr \<and> kinds tr = [])"
proof (induction idxs arbitrary: s fu buf)
  case Nil
  then show ?case by simp
next
  case (Cons j idxs)
  let ?s1 = "s\<lparr>trace := trace s @ map (\<lambda>k. Rd (RTL8365MB_VLAN_MC_CONF_REG j + k)) [0..<4]\<rparr>"
  let ?fu = "if mc_evid s j = 0 \<and> fu < 0 then int j else fu"
  have nv: "mc_evid s j \<noteq> v" and f: "find (\<lambda>i. mc_evid ?s1 i = v) idxs = None"
    using Cons.prems(2) by (auto split: if_splits)
  have fs: "faults ?s1 = []" using Cons.prems(1) by simp
  from Cons.IH [OF fs f, of ?fu "mc_entry s j"]
  obtain e s' tr where
      "vlanmc_scan ?s1 v idxs ?fu (mc_entry s j)
         = (0, 32, (if ?fu < 0 then (case find (\<lambda>i. mc_evid s i = 0) idxs of
                                  Some i \<Rightarrow> int i | None \<Rightarrow> ?fu) else ?fu), e, s')"
      "regs s' = regs s" "tables s' = tables s" "faults s' = []"
      "trace s' = trace ?s1 @ tr" "kinds tr = []"
    by fastforce
  then show ?case using nv Cons.prems(1)
    by (simp add: bulk_read_slot mc_entry_evid Let_def del: upt_Suc)
qed

lemma fld_same:
  fixes old :: u16 and x :: u32
  assumes "off + w \<le> 16"
  shows "drop_bit off (ucast (ucast ((ucast old AND NOT (push_bit off (mask w)))
              OR (push_bit off x AND push_bit off (mask w))) :: u16) AND push_bit off (mask w))
         = take_bit w x"
  using assms by (intro bit_eqI) (auto simp: bit_simps)

lemma fld_other:
  fixes old :: u16 and v :: u32
  assumes "off' + w' \<le> off \<or> off + w \<le> off'"
  shows "drop_bit off' (ucast (ucast ((ucast old AND NOT (push_bit off (mask w)))
              OR (v AND push_bit off (mask w))) :: u16) AND push_bit off' (mask w'))
         = drop_bit off' ((ucast old :: u32) AND push_bit off' (mask w'))"
  using assms by (intro bit_eqI) (auto simp: bit_simps dest: bit_imp_le_length)

lemma ff_mask: "(0xFF::u32) = mask 8" "(3::u32) = mask 2"
  by (simp_all add: mask_eq_exp_minus_1)

lemma pvid_offset: "RTL8365MB_VLAN_PVID_CTRL_OFFSET port = (if even port then 0 else 8)"
  by (simp add: RTL8365MB_VLAN_PVID_CTRL_OFFSET_def and_one_eq mod_2_eq_odd)

lemma frame_offset: "RTL8365MB_VLAN_ACCEPT_FRAME_TYPE_OFFSET port = 2 * (port mod 8)"
proof -
  have "port AND 7 = port mod 8" using take_bit_eq_mask [of 3 port]
    by (simp add: take_bit_eq_mod mask_eq_exp_minus_1)
  then show ?thesis by (simp add: RTL8365MB_VLAN_ACCEPT_FRAME_TYPE_OFFSET_def push_bit_eq_mult)
qed

lemma pvid_reg: "RTL8365MB_VLAN_PVID_CTRL_REG port = 0x700 + port div 2"
  by (simp add: RTL8365MB_VLAN_PVID_CTRL_REG_def drop_bit_eq_div)

lemma frame_reg: "RTL8365MB_VLAN_ACCEPT_FRAME_TYPE_REG port = 0x7AA + port div 8"
  by (simp add: RTL8365MB_VLAN_ACCEPT_FRAME_TYPE_REG_def drop_bit_eq_div)

lemma unat_take_bit_8: "idx < 256 \<Longrightarrow> unat (take_bit 8 (of_nat idx :: u32)) = idx"
  by (simp add: unat_of_nat take_bit_nat_eq_self unsigned_take_bit_eq)

lemma pvid_update:
  assumes "faults s = []" "port < 11" "idx < 256"
  shows "\<exists>s' w. regmap_update_bits s (RTL8365MB_VLAN_PVID_CTRL_REG port)
                 (RTL8365MB_VLAN_PVID_CTRL_MASK port)
                 (push_bit (RTL8365MB_VLAN_PVID_CTRL_OFFSET port) (of_nat idx)) = (0, s')
           \<and> faults s' = [] \<and> tables s' = tables s
           \<and> regs s' = (regs s)(RTL8365MB_VLAN_PVID_CTRL_REG port := w)
           \<and> trace s' = trace s @ [Rd (RTL8365MB_VLAN_PVID_CTRL_REG port),
                                    Wr (RTL8365MB_VLAN_PVID_CTRL_REG port) w]
           \<and> port_pvid s' port = idx
           \<and> (\<forall>q. q \<noteq> port \<longrightarrow> port_pvid s' q = port_pvid s q)
           \<and> (\<forall>q. port_accept_frame s' q = port_accept_frame s q)"
proof -
  let ?r = "RTL8365MB_VLAN_PVID_CTRL_REG port"
  let ?off = "RTL8365MB_VLAN_PVID_CTRL_OFFSET port"
  define w :: u16 where
    "w = ucast ((ucast (regs s ?r) AND NOT (push_bit ?off (mask 8)))
                OR (push_bit ?off (of_nat idx :: u32) AND push_bit ?off (mask 8)))"
  define s' where "s' = s\<lparr>regs := (regs s)(?r := w), trace := trace s @ [Rd ?r, Wr ?r w]\<rparr>"
  have r: "?r \<noteq> RTL8365MB_TABLE_CONTROL_REG" by (simp add: pvid_reg)
  have off: "?off + 8 \<le> 16" by (simp add: pvid_offset)
  have u: "regmap_update_bits s ?r (RTL8365MB_VLAN_PVID_CTRL_MASK port) (push_bit ?off (of_nat idx))
            = (0, s')"
    using assms(1) r
    by (simp add: update_bits_ok Let_def s'_def w_def RTL8365MB_VLAN_PVID_CTRL_MASK_def ff_mask)
  have rw: "regs s' ?r = w" by (simp add: s'_def)
  have "port_pvid s' port = unat (drop_bit ?off (ucast w AND push_bit ?off (mask 8 :: u32)))"
    by (simp only: port_pvid_def RTL8365MB_VLAN_PVID_CTRL_MASK_def ff_mask rw)
  also have "\<dots> = unat (take_bit 8 (of_nat idx :: u32))"
    by (simp only: w_def fld_same [OF off])
  finally have p: "port_pvid s' port = idx" using assms(3) by (simp only: unat_take_bit_8)
  have q: "port_pvid s' q = port_pvid s q" if "q \<noteq> port" for q
  proof (cases "q div 2 = port div 2")
    case False
    then show ?thesis by (simp add: port_pvid_def s'_def pvid_reg)
  next
    case True
    then have par: "even q \<noteq> even port" using that
      by (metis dvd_mult_div_cancel odd_two_times_div_two_succ)
    have rq: "RTL8365MB_VLAN_PVID_CTRL_REG q = ?r" using True by (simp add: pvid_reg)
    have d: "RTL8365MB_VLAN_PVID_CTRL_OFFSET q + 8 \<le> ?off \<or> ?off + 8 \<le> RTL8365MB_VLAN_PVID_CTRL_OFFSET q"
      using par by (auto simp: pvid_offset)
    show ?thesis
      by (simp only: port_pvid_def RTL8365MB_VLAN_PVID_CTRL_MASK_def ff_mask rq rw w_def
            fld_other [OF d])
  qed
  have f: "port_accept_frame s' q = port_accept_frame s q" for q
    using assms(2) by (simp add: port_accept_frame_def s'_def pvid_reg frame_reg)
  show ?thesis using u p q f assms(1) by (intro exI [of _ s'] exI [of _ w]) (simp add: s'_def)
qed

lemma frame_update:
  assumes "faults s = []" "port < 11" "af < 4"
  shows "\<exists>s' w. regmap_update_bits s (RTL8365MB_VLAN_ACCEPT_FRAME_TYPE_REG port)
                 (RTL8365MB_VLAN_ACCEPT_FRAME_TYPE_MASK port)
                 (push_bit (RTL8365MB_VLAN_ACCEPT_FRAME_TYPE_OFFSET port) af) = (0, s')
           \<and> faults s' = [] \<and> tables s' = tables s
           \<and> regs s' = (regs s)(RTL8365MB_VLAN_ACCEPT_FRAME_TYPE_REG port := w)
           \<and> trace s' = trace s @ [Rd (RTL8365MB_VLAN_ACCEPT_FRAME_TYPE_REG port),
                                    Wr (RTL8365MB_VLAN_ACCEPT_FRAME_TYPE_REG port) w]
           \<and> port_accept_frame s' port = af
           \<and> (\<forall>q. q \<noteq> port \<longrightarrow> port_accept_frame s' q = port_accept_frame s q)
           \<and> (\<forall>q < 11. port_pvid s' q = port_pvid s q)"
proof -
  let ?r = "RTL8365MB_VLAN_ACCEPT_FRAME_TYPE_REG port"
  let ?off = "RTL8365MB_VLAN_ACCEPT_FRAME_TYPE_OFFSET port"
  define w :: u16 where
    "w = ucast ((ucast (regs s ?r) AND NOT (push_bit ?off (mask 2)))
                OR (push_bit ?off af AND push_bit ?off (mask 2)))"
  define s' where "s' = s\<lparr>regs := (regs s)(?r := w), trace := trace s @ [Rd ?r, Wr ?r w]\<rparr>"
  have r: "?r \<noteq> RTL8365MB_TABLE_CONTROL_REG" by (simp add: frame_reg)
  have off: "?off + 2 \<le> 16" by (simp add: frame_offset)
  have u: "regmap_update_bits s ?r (RTL8365MB_VLAN_ACCEPT_FRAME_TYPE_MASK port) (push_bit ?off af)
            = (0, s')"
    using assms(1) r
    by (simp add: update_bits_ok Let_def s'_def w_def RTL8365MB_VLAN_ACCEPT_FRAME_TYPE_MASK_def ff_mask)
  have t: "take_bit 2 af = af" using assms(3) less_mask_eq [of af 2]
    by (simp add: take_bit_eq_mask)
  have rw: "regs s' ?r = w" by (simp add: s'_def)
  have p: "port_accept_frame s' port = af"
    by (simp only: port_accept_frame_def RTL8365MB_VLAN_ACCEPT_FRAME_TYPE_MASK_def ff_mask rw
          w_def fld_same [OF off] t)
  have q: "port_accept_frame s' q = port_accept_frame s q" if "q \<noteq> port" for q
  proof (cases "q div 8 = port div 8")
    case False
    then show ?thesis by (simp add: port_accept_frame_def s'_def frame_reg)
  next
    case True
    then have par: "q mod 8 \<noteq> port mod 8" using that
      by (metis div_mult_mod_eq)
    have rq: "RTL8365MB_VLAN_ACCEPT_FRAME_TYPE_REG q = ?r" using True by (simp add: frame_reg)
    have d: "RTL8365MB_VLAN_ACCEPT_FRAME_TYPE_OFFSET q + 2 \<le> ?off
             \<or> ?off + 2 \<le> RTL8365MB_VLAN_ACCEPT_FRAME_TYPE_OFFSET q"
      using par by (simp add: frame_offset) arith
    show ?thesis
      by (simp only: port_accept_frame_def RTL8365MB_VLAN_ACCEPT_FRAME_TYPE_MASK_def ff_mask
            rq rw w_def fld_other [OF d])
  qed
  have f: "port_pvid s' q = port_pvid s q" if "q < 11" for q
    using assms(2) that by (simp add: port_pvid_def s'_def pvid_reg frame_reg)
  show ?thesis using u p q f assms(1) by (intro exI [of _ s'] exI [of _ w]) (simp add: s'_def)
qed

lemma kind_pvid_reg: "port < 11 \<Longrightarrow> kind_of (Wr (RTL8365MB_VLAN_PVID_CTRL_REG port) w) = Some PortReg"
  by (simp add: kind_of_def pvid_reg)

lemma kind_frame_reg:
  "port < 11 \<Longrightarrow> kind_of (Wr (RTL8365MB_VLAN_ACCEPT_FRAME_TYPE_REG port) w) = Some PortReg"
  by (simp add: kind_of_def frame_reg)

lemma adjust_unfold:
  "vlanmc_adjust s port vlan include idx pv af =
     (let P = include \<and> flags vlan AND 2 \<noteq> 0 \<and> idx \<noteq> pv;
          af' = (if \<not> include then (if af = 0 \<and> pv = idx then 1 else af)
                 else if flags vlan AND 2 \<noteq> 0 \<and> af = 1 then 0 else af)
      in case (if P then regmap_update_bits s (RTL8365MB_VLAN_PVID_CTRL_REG port)
                        (RTL8365MB_VLAN_PVID_CTRL_MASK port)
                        (push_bit (RTL8365MB_VLAN_PVID_CTRL_OFFSET port) (of_nat idx))
               else (0, s)) of
           (ret, s1) \<Rightarrow>
             if ret \<noteq> 0 then (ret, s1)
             else if af' \<noteq> af
             then regmap_update_bits s1 (RTL8365MB_VLAN_ACCEPT_FRAME_TYPE_REG port)
                    (RTL8365MB_VLAN_ACCEPT_FRAME_TYPE_MASK port)
                    (push_bit (RTL8365MB_VLAN_ACCEPT_FRAME_TYPE_OFFSET port) af')
             else (0, s1))"
  by (auto simp: vlanmc_adjust_def Let_def split: prod.splits)

lemma adjust_ok:
  assumes "faults s = []" "port < 11" "idx < 256"
    and pv: "pv = port_pvid s port" and af: "af = port_accept_frame s port"
    and P: "P = (include \<and> flags vlan AND 2 \<noteq> 0 \<and> idx \<noteq> pv)"
    and af': "af' = (if \<not> include then (if af = 0 \<and> pv = idx then 1 else af)
                     else if flags vlan AND 2 \<noteq> 0 \<and> af = 1 then 0 else af)"
  shows "\<exists>s' tr. vlanmc_adjust s port vlan include idx pv af = (0, s')
           \<and> faults s' = [] \<and> tables s' = tables s
           \<and> (\<forall>r. r < 0x700 \<or> (0x706 \<le> r \<and> r < 0x7AA) \<longrightarrow> regs s' r = regs s r)
           \<and> port_pvid s' port = (if include \<and> flags vlan AND 2 \<noteq> 0 then idx else pv)
           \<and> port_accept_frame s' port = af'
           \<and> (\<forall>q < 11. q \<noteq> port \<longrightarrow> port_pvid s' q = port_pvid s q
                                \<and> port_accept_frame s' q = port_accept_frame s q)
           \<and> trace s' = trace s @ tr
           \<and> kinds tr = (if P then [PortReg] else []) @ (if af' \<noteq> af then [PortReg] else [])
           \<and> ((\<exists>v. Wr (RTL8365MB_VLAN_PVID_CTRL_REG port) v \<in> set tr) \<longleftrightarrow> P)"
proof -
  let ?pr = "RTL8365MB_VLAN_PVID_CTRL_REG port"
  let ?fr = "RTL8365MB_VLAN_ACCEPT_FRAME_TYPE_REG port"
  have prb: "0x700 \<le> ?pr" "?pr < 0x706" using assms(2) by (simp_all add: pvid_reg)
  have frb: "0x7AA \<le> ?fr" "?fr < 0x7AC" using assms(2) by (simp_all add: frame_reg)
  have A: "\<exists>s1 tr1. (if P then regmap_update_bits s ?pr (RTL8365MB_VLAN_PVID_CTRL_MASK port)
                        (push_bit (RTL8365MB_VLAN_PVID_CTRL_OFFSET port) (of_nat idx))
                     else (0, s)) = (0, s1)
            \<and> faults s1 = [] \<and> tables s1 = tables s
            \<and> (\<forall>r. r < 0x700 \<or> (0x706 \<le> r \<and> r < 0x7AA) \<longrightarrow> regs s1 r = regs s r)
            \<and> port_pvid s1 port = (if P then idx else pv)
            \<and> (\<forall>q. q \<noteq> port \<longrightarrow> port_pvid s1 q = port_pvid s q)
            \<and> (\<forall>q. port_accept_frame s1 q = port_accept_frame s q)
            \<and> trace s1 = trace s @ tr1
            \<and> kinds tr1 = (if P then [PortReg] else [])
            \<and> ((\<exists>v. Wr ?pr v \<in> set tr1) \<longleftrightarrow> P)"
  proof (cases P)
    case False
    then show ?thesis using assms(1) pv by (intro exI [of _ s] exI [of _ "[]"]) simp
  next
    case True
    from pvid_update [OF assms(1-3)] obtain s1 w where
      "regmap_update_bits s ?pr (RTL8365MB_VLAN_PVID_CTRL_MASK port)
         (push_bit (RTL8365MB_VLAN_PVID_CTRL_OFFSET port) (of_nat idx)) = (0, s1)"
      "faults s1 = []" "tables s1 = tables s" "regs s1 = (regs s)(?pr := w)"
      "trace s1 = trace s @ [Rd ?pr, Wr ?pr w]" "port_pvid s1 port = idx"
      "\<forall>q. q \<noteq> port \<longrightarrow> port_pvid s1 q = port_pvid s q"
      "\<forall>q. port_accept_frame s1 q = port_accept_frame s q"
      by blast
    then show ?thesis using True assms(2) prb
      by (intro exI [of _ s1] exI [of _ "[Rd ?pr, Wr ?pr w]"])
         (simp add: kinds_Wr_Some kind_pvid_reg)
  qed
  then obtain s1 tr1 where s1:
      "(if P then regmap_update_bits s ?pr (RTL8365MB_VLAN_PVID_CTRL_MASK port)
                        (push_bit (RTL8365MB_VLAN_PVID_CTRL_OFFSET port) (of_nat idx))
        else (0, s)) = (0, s1)"
      "faults s1 = []" "tables s1 = tables s"
      "\<forall>r. r < 0x700 \<or> (0x706 \<le> r \<and> r < 0x7AA) \<longrightarrow> regs s1 r = regs s r"
      "port_pvid s1 port = (if P then idx else pv)"
      "\<forall>q. q \<noteq> port \<longrightarrow> port_pvid s1 q = port_pvid s q"
      "\<forall>q. port_accept_frame s1 q = port_accept_frame s q"
      "trace s1 = trace s @ tr1" "kinds tr1 = (if P then [PortReg] else [])"
      "(\<exists>v. Wr ?pr v \<in> set tr1) \<longleftrightarrow> P"
    by blast
  have af4: "af' < 4" if "af' \<noteq> af" using that by (auto simp: af' split: if_splits)
  have B: "\<exists>s2 tr2. (if af' \<noteq> af
                     then regmap_update_bits s1 ?fr (RTL8365MB_VLAN_ACCEPT_FRAME_TYPE_MASK port)
                            (push_bit (RTL8365MB_VLAN_ACCEPT_FRAME_TYPE_OFFSET port) af')
                     else (0, s1)) = (0, s2)
            \<and> faults s2 = [] \<and> tables s2 = tables s1
            \<and> (\<forall>r. r < 0x7AA \<longrightarrow> regs s2 r = regs s1 r)
            \<and> port_accept_frame s2 port = af'
            \<and> (\<forall>q. q \<noteq> port \<longrightarrow> port_accept_frame s2 q = port_accept_frame s1 q)
            \<and> (\<forall>q < 11. port_pvid s2 q = port_pvid s1 q)
            \<and> trace s2 = trace s1 @ tr2
            \<and> kinds tr2 = (if af' \<noteq> af then [PortReg] else [])
            \<and> (\<forall>v. Wr ?pr v \<notin> set tr2)"
  proof (cases "af' \<noteq> af")
    case False
    then show ?thesis using s1(2,7) af by (intro exI [of _ s1] exI [of _ "[]"]) simp
  next
    case True
    from frame_update [OF s1(2) assms(2) af4 [OF True]] obtain s2 w where
      "regmap_update_bits s1 ?fr (RTL8365MB_VLAN_ACCEPT_FRAME_TYPE_MASK port)
         (push_bit (RTL8365MB_VLAN_ACCEPT_FRAME_TYPE_OFFSET port) af') = (0, s2)"
      "faults s2 = []" "tables s2 = tables s1" "regs s2 = (regs s1)(?fr := w)"
      "trace s2 = trace s1 @ [Rd ?fr, Wr ?fr w]" "port_accept_frame s2 port = af'"
      "\<forall>q. q \<noteq> port \<longrightarrow> port_accept_frame s2 q = port_accept_frame s1 q"
      "\<forall>q < 11. port_pvid s2 q = port_pvid s1 q"
      by blast
    then show ?thesis using True assms(2) prb frb
      by (intro exI [of _ s2] exI [of _ "[Rd ?fr, Wr ?fr w]"])
         (auto simp add: kinds_Wr_Some kind_frame_reg)
  qed
  then obtain s2 tr2 where s2:
      "(if af' \<noteq> af
        then regmap_update_bits s1 ?fr (RTL8365MB_VLAN_ACCEPT_FRAME_TYPE_MASK port)
               (push_bit (RTL8365MB_VLAN_ACCEPT_FRAME_TYPE_OFFSET port) af')
        else (0, s1)) = (0, s2)"
      "faults s2 = []" "tables s2 = tables s1"
      "\<forall>r. r < 0x7AA \<longrightarrow> regs s2 r = regs s1 r"
      "port_accept_frame s2 port = af'"
      "\<forall>q. q \<noteq> port \<longrightarrow> port_accept_frame s2 q = port_accept_frame s1 q"
      "\<forall>q < 11. port_pvid s2 q = port_pvid s1 q"
      "trace s2 = trace s1 @ tr2" "kinds tr2 = (if af' \<noteq> af then [PortReg] else [])"
      "\<forall>v. Wr ?pr v \<notin> set tr2"
    by blast
  have r: "vlanmc_adjust s port vlan include idx pv af = (0, s2)"
    unfolding adjust_unfold Let_def P [symmetric] af' [symmetric]
    using s1(1) s2(1) by (simp split: if_splits)
  have pp: "port_pvid s2 port = (if include \<and> flags vlan AND 2 \<noteq> 0 then idx else pv)"
    using s2(7) s1(5) assms(2) by (auto simp: P)
  show ?thesis
    apply (intro exI [of _ s2] exI [of _ "tr1 @ tr2"])
    using r pp s1 s2 assms(2) by auto
qed

lemma mc_reg: "RTL8365MB_VLAN_MC_CONF_REG i = 0x728 + 4 * i"
  by (simp add: RTL8365MB_VLAN_MC_CONF_REG_def)

lemma kinds_map_Wr_slot:
  "(\<forall>k \<in> set xs. 0x728 \<le> f k \<and> f k < 0x7A8)
     \<Longrightarrow> kinds (map (\<lambda>k. Wr (f k) (g k)) xs) = replicate (length xs) Slot"
  by (induction xs) (simp_all add: kinds_Wr_Some kind_of_def)

lemma length_vlanmc_buf [simp]: "length (rtl8365mb_vlanmc_buf m buf) = length buf"
  by (simp add: rtl8365mb_vlanmc_buf_def)

lemma commit_unfold:
  assumes "faults s = []" "length entry = 4"
  shows "\<exists>e. length e = 4 \<and>
     vlanmc_commit s cpu port vlan include idx entry vlan4k =
       (case regmap_bulk_write
               (s\<lparr>trace := trace s @ [Rd (RTL8365MB_VLAN_PVID_CTRL_REG port),
                                       Rd (RTL8365MB_VLAN_ACCEPT_FRAME_TYPE_REG port)]\<rparr>)
               (RTL8365MB_VLAN_MC_CONF_REG idx) e of
          (ret, s3) \<Rightarrow>
            if ret \<noteq> 0 then (ret, s3)
            else vlanmc_adjust s3 port vlan include idx (port_pvid s port)
                   (port_accept_frame s port))"
proof -
  define m0 where "m0 = rtl8365mb_buf_vlanmc entry vlanmc_zero"
  define m1 where "m1 = m0\<lparr>member_mc := member_mc m0 OR member_4k vlan4k\<rparr>"
  define m2 where "m2 = (if include then m1\<lparr>member_mc := member_mc m1 OR BIT port\<rparr>
                          else m1\<lparr>member_mc := member_mc m1 AND NOT (BIT port)\<rparr>)"
  define m3 where "m3 = m2\<lparr>vid_mc := vid vlan\<rparr>"
  define e where
    "e = (if \<not> include \<and> ucast (member_mc m3) AND NOT cpu = 0 then [0, 0, 0, 0]
          else rtl8365mb_vlanmc_buf m3 entry)"
  have le: "length e = 4" using assms(2) by (simp add: e_def)
  have r1: "regmap_read s (RTL8365MB_VLAN_PVID_CTRL_REG port) =
              (0, ucast (regs s (RTL8365MB_VLAN_PVID_CTRL_REG port)),
               s\<lparr>trace := trace s @ [Rd (RTL8365MB_VLAN_PVID_CTRL_REG port)]\<rparr>)"
    using assms(1) by (simp add: regmap_read_ok)
  have r2: "regmap_read (s\<lparr>trace := trace s @ [Rd (RTL8365MB_VLAN_PVID_CTRL_REG port)]\<rparr>)
              (RTL8365MB_VLAN_ACCEPT_FRAME_TYPE_REG port) =
              (0, ucast (regs s (RTL8365MB_VLAN_ACCEPT_FRAME_TYPE_REG port)),
               s\<lparr>trace := trace s @ [Rd (RTL8365MB_VLAN_PVID_CTRL_REG port),
                                       Rd (RTL8365MB_VLAN_ACCEPT_FRAME_TYPE_REG port)]\<rparr>)"
    using assms(1) by (simp add: regmap_read_ok)
  have "vlanmc_commit s cpu port vlan include idx entry vlan4k =
       (case regmap_bulk_write
               (s\<lparr>trace := trace s @ [Rd (RTL8365MB_VLAN_PVID_CTRL_REG port),
                                       Rd (RTL8365MB_VLAN_ACCEPT_FRAME_TYPE_REG port)]\<rparr>)
               (RTL8365MB_VLAN_MC_CONF_REG idx) e of
          (ret, s3) \<Rightarrow>
            if ret \<noteq> 0 then (ret, s3)
            else vlanmc_adjust s3 port vlan include idx (port_pvid s port)
                   (port_accept_frame s port))"
    by (simp only: vlanmc_commit_def r1 r2 prod.case Let_def port_pvid_def port_accept_frame_def
          e_def m3_def m2_def m1_def m0_def simp_thms if_False)
  then show ?thesis using le by blast
qed

lemma commit_ok:
  assumes "faults s = []" "port < 11" "idx < 32" "length entry = 4"
    and P: "P = (include \<and> flags vlan AND 2 \<noteq> 0 \<and> idx \<noteq> port_pvid s port)"
    and af': "af' = (if \<not> include
                     then (if port_accept_frame s port = 0 \<and> port_pvid s port = idx then 1
                           else port_accept_frame s port)
                     else if flags vlan AND 2 \<noteq> 0 \<and> port_accept_frame s port = 1 then 0
                     else port_accept_frame s port)"
  shows "\<exists>s' tr. vlanmc_commit s cpu port vlan include idx entry vlan4k = (0, s')
           \<and> faults s' = [] \<and> tables s' = tables s
           \<and> (\<forall>r. r < 0x700 \<longrightarrow> regs s' r = regs s r)
           \<and> port_pvid s' port = (if include \<and> flags vlan AND 2 \<noteq> 0 then idx else port_pvid s port)
           \<and> port_accept_frame s' port = af'
           \<and> (\<forall>q < 11. q \<noteq> port \<longrightarrow> port_pvid s' q = port_pvid s q
                                \<and> port_accept_frame s' q = port_accept_frame s q)
           \<and> trace s' = trace s @ tr
           \<and> kinds tr = replicate 4 Slot @ (if P then [PortReg] else [])
                          @ (if af' \<noteq> port_accept_frame s port then [PortReg] else [])
           \<and> ((\<exists>v. Wr (RTL8365MB_VLAN_PVID_CTRL_REG port) v \<in> set tr) \<longleftrightarrow> P)"
proof -
  let ?pr = "RTL8365MB_VLAN_PVID_CTRL_REG port"
  let ?fr = "RTL8365MB_VLAN_ACCEPT_FRAME_TYPE_REG port"
  let ?mr = "RTL8365MB_VLAN_MC_CONF_REG idx"
  have mrb: "0x728 \<le> ?mr" "?mr + 4 \<le> 0x7A8" using assms(3) by (simp_all add: mc_reg)
  have prb: "0x700 \<le> ?pr" "?pr < 0x706" using assms(2) by (simp_all add: pvid_reg)
  have frb: "0x7AA \<le> ?fr" "?fr < 0x7AC" using assms(2) by (simp_all add: frame_reg)
  define s2 where "s2 = s\<lparr>trace := trace s @ [Rd ?pr, Rd ?fr]\<rparr>"
  from commit_unfold [OF assms(1,4)] obtain e where le: "length e = 4"
    and c: "vlanmc_commit s cpu port vlan include idx entry vlan4k =
       (case regmap_bulk_write s2 ?mr e of
          (ret, s3) \<Rightarrow>
            if ret \<noteq> 0 then (ret, s3)
            else vlanmc_adjust s3 port vlan include idx (port_pvid s port)
                   (port_accept_frame s port))"
    unfolding s2_def by blast
  define tr3 where "tr3 = map (\<lambda>k. Wr (?mr + k) (e ! k)) [0..<4]"
  define s3 where
    "s3 = s2\<lparr>regs := (\<lambda>a. if ?mr \<le> a \<and> a < ?mr + 4 then e ! (a - ?mr) else regs s2 a),
              trace := trace s2 @ tr3\<rparr>"
  have f2: "faults s2 = []" using assms(1) by (simp add: s2_def)
  have bw: "regmap_bulk_write s2 ?mr e = (0, s3)"
    using bulk_write_ok [of s2 e ?mr] f2 mrb le by (simp add: s3_def tr3_def)
  have c': "vlanmc_commit s cpu port vlan include idx entry vlan4k =
             vlanmc_adjust s3 port vlan include idx (port_pvid s port) (port_accept_frame s port)"
    unfolding c bw by simp
  have rs3: "regs s3 r = regs s r" if "r < 0x728 \<or> 0x7A8 \<le> r" for r
    using that mrb by (auto simp: s3_def s2_def)
  have pq: "port_pvid s3 q = port_pvid s q" if "q < 11" for q
  proof -
    have "RTL8365MB_VLAN_PVID_CTRL_REG q < 0x728" using that by (simp add: pvid_reg)
    then have "regs s3 (RTL8365MB_VLAN_PVID_CTRL_REG q) = regs s (RTL8365MB_VLAN_PVID_CTRL_REG q)"
      using rs3 by blast
    then show ?thesis by (simp add: port_pvid_def)
  qed
  have fq: "port_accept_frame s3 q = port_accept_frame s q" for q
  proof -
    have "0x7A8 \<le> RTL8365MB_VLAN_ACCEPT_FRAME_TYPE_REG q" by (simp add: frame_reg)
    then have "regs s3 (RTL8365MB_VLAN_ACCEPT_FRAME_TYPE_REG q)
                 = regs s (RTL8365MB_VLAN_ACCEPT_FRAME_TYPE_REG q)"
      using rs3 by blast
    then show ?thesis by (simp add: port_accept_frame_def)
  qed
  have k3: "kinds tr3 = replicate 4 Slot"
    unfolding tr3_def using mrb kinds_map_Wr_slot [of "[0..<4]" "\<lambda>k. ?mr + k" "\<lambda>k. e ! k"]
    by simp
  have n3: "Wr ?pr v \<notin> set tr3" for v
    unfolding tr3_def using mrb prb by auto
  have f3: "faults s3 = []" using f2 by (simp add: s3_def)
  from adjust_ok [OF f3 assms(2), of idx "port_pvid s port" "port_accept_frame s port" P
       "include" vlan af']
  obtain s' tr where a:
    "vlanmc_adjust s3 port vlan include idx (port_pvid s port) (port_accept_frame s port) = (0, s')"
    "faults s' = []" "tables s' = tables s3"
    "\<forall>r. r < 0x700 \<or> (0x706 \<le> r \<and> r < 0x7AA) \<longrightarrow> regs s' r = regs s3 r"
    "port_pvid s' port = (if include \<and> flags vlan AND 2 \<noteq> 0 then idx else port_pvid s port)"
    "port_accept_frame s' port = af'"
    "\<forall>q < 11. q \<noteq> port \<longrightarrow> port_pvid s' q = port_pvid s3 q
                                \<and> port_accept_frame s' q = port_accept_frame s3 q"
    "trace s' = trace s3 @ tr"
    "kinds tr = (if P then [PortReg] else [])
                @ (if af' \<noteq> port_accept_frame s port then [PortReg] else [])"
    "(\<exists>v. Wr ?pr v \<in> set tr) \<longleftrightarrow> P"
    using assms(2,3) pq [of port] fq [of port] P af' by auto
  have t: "trace s' = trace s @ ([Rd ?pr, Rd ?fr] @ tr3 @ tr)"
    using a(8) by (simp add: s3_def s2_def)
  have r: "\<forall>r. r < 0x700 \<longrightarrow> regs s' r = regs s r" using a(4) rs3 by simp
  have tb: "tables s' = tables s" using a(3) by (simp add: s3_def s2_def)
  have k: "kinds ([Rd ?pr, Rd ?fr] @ tr3 @ tr) = replicate 4 Slot @ (if P then [PortReg] else [])
                          @ (if af' \<noteq> port_accept_frame s port then [PortReg] else [])"
    using k3 a(9) by simp
  have w: "(\<exists>v. Wr ?pr v \<in> set ([Rd ?pr, Rd ?fr] @ tr3 @ tr)) \<longleftrightarrow> P"
    using a(10) n3 by auto
  have o: "\<forall>q < 11. q \<noteq> port \<longrightarrow> port_pvid s' q = port_pvid s q
                                \<and> port_accept_frame s' q = port_accept_frame s q"
    using a(7) pq fq by simp
  show ?thesis
    using c' a(1,2,5,6) t r tb k w o
    by (intro exI [of _ s'] exI [of _ "[Rd ?pr, Rd ?fr] @ tr3 @ tr"]) simp
qed

lemma length_vlan4k_buf [simp]: "length (rtl8365mb_vlan4k_buf x buf) = length buf"
  by (simp add: rtl8365mb_vlan4k_buf_def Let_def)

lemma length_vlan4k_row [simp]: "length (vlan4k_row s v) = 3"
  by (simp add: vlan4k_row_def)

lemma cvlan_read_ok:
  assumes "idle s" "v \<le> 0xFFF"
  shows "\<exists>s' tr. rtl8365mb_table_access s RTL8365MB_TABLE_CVLAN RTL8365MB_TABLE_READ v buf =
             (0, vlan4k_row s v @ drop 3 buf, s')
           \<and> idle s' \<and> tables s' = tables s
           \<and> (\<forall>r. r \<ge> 0x530 \<longrightarrow> regs s' r = regs s r)
           \<and> trace s' = trace s @ tr \<and> kinds tr = []"
proof -
  have u: "unat v < 16384" using assms(2) by (simp add: word_le_nat_alt)
  from table_read_ok [OF assms(1) _ u, of 3 rtl8365mb_table_entry_size 3 buf]
  show ?thesis
    by (auto simp: rtl8365mb_table_access_def RTL8365MB_TABLE_CVLAN_def RTL8365MB_NUM_TABLES_def
          rtl8365mb_table_entry_size_def vlan4k_row_def Let_def)
qed

lemma cvlan_write_ok:
  assumes "idle s" "v \<le> 0xFFF" "length row = 3"
  shows "\<exists>s' tr. rtl8365mb_table_access s RTL8365MB_TABLE_CVLAN RTL8365MB_TABLE_WRITE v row =
             (0, row, s')
           \<and> idle s' \<and> vlan4k_row s' v = row
           \<and> (\<forall>u. u \<noteq> v \<longrightarrow> vlan4k_row s' u = vlan4k_row s u)
           \<and> (\<forall>r. r \<ge> 0x530 \<longrightarrow> regs s' r = regs s r)
           \<and> trace s' = trace s @ tr \<and> kinds tr = [ByID]"
proof -
  have u: "unat v < 16384" using assms(2) by (simp add: word_le_nat_alt)
  from table_write_ok [OF assms(1) _ u, of 3 rtl8365mb_table_entry_size 3 row] assms(3)
  obtain s' tr where a:
    "rtl8365mb_table_access s RTL8365MB_TABLE_CVLAN RTL8365MB_TABLE_WRITE v row = (0, row, s')"
    "idle s'" "tables s' = (tables s)(3 := (tables s 3)(unat v := written_row s 3 row))"
    "\<forall>r. r \<ge> 0x530 \<longrightarrow> regs s' r = regs s r" "trace s' = trace s @ tr" "kinds tr = [ByID]"
    by (auto simp: rtl8365mb_table_access_def RTL8365MB_TABLE_CVLAN_def RTL8365MB_NUM_TABLES_def
          rtl8365mb_table_entry_size_def)
  have "map (written_row s 3 row) [0..<3] = map ((!) row) [0..<length row]"
    using assms(3) by (simp add: written_row_def)
  then have r: "vlan4k_row s' v = row"
    using a(3) by (simp add: vlan4k_row_def RTL8365MB_TABLE_CVLAN_def map_nth del: upt_Suc)
  have o: "vlan4k_row s' u = vlan4k_row s u" if "u \<noteq> v" for u
    using that a(3) by (simp add: vlan4k_row_def RTL8365MB_TABLE_CVLAN_def word_unat_eq_iff)
  show ?thesis using a r o by blast
qed

lemma vlan4k_set_ok:
  assumes "idle s" "vid vlan \<le> 0xFFF"
    and x: "x = rtl8365mb_buf_vlan4k (vlan4k_row s (vid vlan)) vlan4k_zero"
  shows "\<exists>s' tr. rtl8365mb_vlan4k_set s port vlan include = (0, s')
           \<and> idle s'
           \<and> vlan4k_row s' (vid vlan) =
               rtl8365mb_vlan4k_buf
                 (x\<lparr>member_4k := (if include then member_4k x OR BIT port
                                   else member_4k x AND NOT (BIT port)),
                    untag_4k := (if include \<and> flags vlan AND 4 \<noteq> 0 then untag_4k x OR BIT port
                                  else untag_4k x AND NOT (BIT port))\<rparr>)
                 (vlan4k_row s (vid vlan))
           \<and> (\<forall>u. u \<noteq> vid vlan \<longrightarrow> vlan4k_row s' u = vlan4k_row s u)
           \<and> (\<forall>r. r \<ge> 0x530 \<longrightarrow> regs s' r = regs s r)
           \<and> trace s' = trace s @ tr \<and> kinds tr = [ByID]"
proof -
  let ?v = "vid vlan"
  define y where "y = x\<lparr>member_4k := (if include then member_4k x OR BIT port
                                   else member_4k x AND NOT (BIT port)),
                    untag_4k := (if include \<and> flags vlan AND 4 \<noteq> 0 then untag_4k x OR BIT port
                                  else untag_4k x AND NOT (BIT port))\<rparr>"
  from cvlan_read_ok [OF assms(1,2), of "[0, 0, 0]"] obtain s1 tr1 where r:
    "rtl8365mb_table_access s RTL8365MB_TABLE_CVLAN RTL8365MB_TABLE_READ ?v [0, 0, 0] =
       (0, vlan4k_row s ?v, s1)"
    "idle s1" "tables s1 = tables s" "\<forall>r. r \<ge> 0x530 \<longrightarrow> regs s1 r = regs s r"
    "trace s1 = trace s @ tr1" "kinds tr1 = []"
    by auto
  have rows: "vlan4k_row s1 u = vlan4k_row s u" for u using r(3) by (simp add: vlan4k_row_def)
  from cvlan_write_ok [OF r(2) assms(2), of "rtl8365mb_vlan4k_buf y (vlan4k_row s ?v)"]
  obtain s2 tr2 where w:
    "rtl8365mb_table_access s1 RTL8365MB_TABLE_CVLAN RTL8365MB_TABLE_WRITE ?v
       (rtl8365mb_vlan4k_buf y (vlan4k_row s ?v)) = (0, rtl8365mb_vlan4k_buf y (vlan4k_row s ?v), s2)"
    "idle s2" "vlan4k_row s2 ?v = rtl8365mb_vlan4k_buf y (vlan4k_row s ?v)"
    "\<forall>u. u \<noteq> ?v \<longrightarrow> vlan4k_row s2 u = vlan4k_row s1 u"
    "\<forall>r. r \<ge> 0x530 \<longrightarrow> regs s2 r = regs s1 r"
    "trace s2 = trace s1 @ tr2" "kinds tr2 = [ByID]"
    by auto
  have y': "(let vlan4k = rtl8365mb_buf_vlan4k (vlan4k_row s ?v) vlan4k_zero;
                 vlan4k = (if include then vlan4k\<lparr>member_4k := member_4k vlan4k OR BIT port\<rparr>
                           else vlan4k\<lparr>member_4k := member_4k vlan4k AND NOT (BIT port)\<rparr>);
                 vlan4k = (if include \<and> flags vlan AND BRIDGE_VLAN_INFO_UNTAGGED \<noteq> 0
                           then vlan4k\<lparr>untag_4k := untag_4k vlan4k OR BIT port\<rparr>
                           else vlan4k\<lparr>untag_4k := untag_4k vlan4k AND NOT (BIT port)\<rparr>)
             in vlan4k) = y"
    by (simp add: y_def x Let_def)
  have "rtl8365mb_vlan4k_set s port vlan include = (0, s2)"
    using assms(2) r(1) w(1) y' by (simp add: rtl8365mb_vlan4k_set_def Let_def not_less [symmetric])
  then show ?thesis
    using w r rows unfolding y_def
    by (intro exI [of _ s2] exI [of _ "tr1 @ tr2"]) simp
qed

lemma length3: "length row = 3 \<Longrightarrow> \<exists>a b c. row = [a, b, c]"
  by (auto simp: length_Suc_conv numeral_3_eq_3)

lemma get_buf_member:
  "bit (member_4k (rtl8365mb_buf_vlan4k [a, b, c] z)) p
     \<longleftrightarrow> (if p < 8 then bit a p else p < 11 \<and> bit c (p - 8))"
  by (auto simp: rtl8365mb_buf_vlan4k_def bit_simps bit_FIELD_GET FIELD_WIDTH_def
        dest: bit_imp_le_length)

lemma get_buf_untag:
  "bit (untag_4k (rtl8365mb_buf_vlan4k [a, b, c] z)) p
     \<longleftrightarrow> (if p < 8 then bit a (p + 8) else p < 11 \<and> bit c (p - 8 + 3))"
  by (auto simp: rtl8365mb_buf_vlan4k_def bit_simps bit_FIELD_GET FIELD_WIDTH_def
        dest: bit_imp_le_length)

lemma vlan4k_buf_words:
  "\<exists>a' b' c'. rtl8365mb_vlan4k_buf y [a, b, c] = [a', b', c']
     \<and> (\<forall>p < 8. bit a' p = bit (member_4k y) p \<and> bit a' (p + 8) = bit (untag_4k y) p)
     \<and> (\<forall>k < 3. bit c' k = bit (member_4k y) (k + 8) \<and> bit c' (k + 3) = bit (untag_4k y) (k + 8))"
  by (auto simp: rtl8365mb_vlan4k_buf_def Let_def bit_simps bit_FIELD_PREP bit_GENMASK
        FIELD_WIDTH_def FIELD_MAX_def add.commute)

lemma vlan4k_roundtrip:
  assumes "length row = 3" "p < 11"
  shows "bit (member_4k (rtl8365mb_buf_vlan4k (rtl8365mb_vlan4k_buf y row) z)) p
           = bit (member_4k y) p"
    and "bit (untag_4k (rtl8365mb_buf_vlan4k (rtl8365mb_vlan4k_buf y row) z)) p
           = bit (untag_4k y) p"
proof -
  obtain a b c where r: "row = [a, b, c]" using length3 [OF assms(1)] by blast
  from vlan4k_buf_words [of y a b c] obtain a' b' c' where w:
    "rtl8365mb_vlan4k_buf y [a, b, c] = [a', b', c']"
    "\<forall>p < 8. bit a' p = bit (member_4k y) p \<and> bit a' (p + 8) = bit (untag_4k y) p"
    "\<forall>k < 3. bit c' k = bit (member_4k y) (k + 8) \<and> bit c' (k + 3) = bit (untag_4k y) (k + 8)"
    by blast
  have k: "p - 8 < 3" "p - 8 + 8 = p" if "\<not> p < 8" using that assms(2) by simp_all
  show "bit (member_4k (rtl8365mb_buf_vlan4k (rtl8365mb_vlan4k_buf y row) z)) p
           = bit (member_4k y) p"
    unfolding r w(1) get_buf_member using w(2,3) k assms(2) by (cases "p < 8") auto
  show "bit (untag_4k (rtl8365mb_buf_vlan4k (rtl8365mb_vlan4k_buf y row) z)) p
           = bit (untag_4k y) p"
    unfolding r w(1) get_buf_untag using w(2,3) k assms(2) by (cases "p < 8") auto
qed

lemma bit_BIT: "bit (BIT port) p \<longleftrightarrow> p = port \<and> port < 16"
  by (auto simp: BIT_def bit_simps)

lemma vlan4k_set_bits:
  assumes "idle s" "vid vlan \<le> 0xFFF" "port < 11"
  shows "\<exists>s' tr. rtl8365mb_vlan4k_set s port vlan include = (0, s')
           \<and> idle s'
           \<and> (vlan4k_member s' (vid vlan) port \<longleftrightarrow> include)
           \<and> (vlan4k_untag s' (vid vlan) port \<longleftrightarrow> include \<and> flags vlan AND 4 \<noteq> 0)
           \<and> (\<forall>q < 11. q \<noteq> port \<longrightarrow>
                  vlan4k_member s' (vid vlan) q = vlan4k_member s (vid vlan) q
                  \<and> vlan4k_untag s' (vid vlan) q = vlan4k_untag s (vid vlan) q)
           \<and> (\<forall>u. u \<noteq> vid vlan \<longrightarrow> vlan4k_row s' u = vlan4k_row s u)
           \<and> (\<forall>r. r \<ge> 0x530 \<longrightarrow> regs s' r = regs s r)
           \<and> trace s' = trace s @ tr \<and> kinds tr = [ByID]"
proof -
  define x where "x = rtl8365mb_buf_vlan4k (vlan4k_row s (vid vlan)) vlan4k_zero"
  define y where "y = x\<lparr>member_4k := (if include then member_4k x OR BIT port
                                   else member_4k x AND NOT (BIT port)),
                    untag_4k := (if include \<and> flags vlan AND 4 \<noteq> 0 then untag_4k x OR BIT port
                                  else untag_4k x AND NOT (BIT port))\<rparr>"
  from vlan4k_set_ok [OF assms(1,2) x_def, of port "include"] obtain s' tr where a:
    "rtl8365mb_vlan4k_set s port vlan include = (0, s')" "idle s'"
    "vlan4k_row s' (vid vlan) = rtl8365mb_vlan4k_buf y (vlan4k_row s (vid vlan))"
    "\<forall>u. u \<noteq> vid vlan \<longrightarrow> vlan4k_row s' u = vlan4k_row s u"
    "\<forall>r. r \<ge> 0x530 \<longrightarrow> regs s' r = regs s r"
    "trace s' = trace s @ tr" "kinds tr = [ByID]"
    unfolding y_def by blast
  have m: "vlan4k_member s' (vid vlan) q = bit (member_4k y) q"
    and u: "vlan4k_untag s' (vid vlan) q = bit (untag_4k y) q" if "q < 11" for q
    using that by (simp_all add: vlan4k_member_def vlan4k_untag_def a(3) vlan4k_roundtrip)
  have p16: "port < 16" using assms(3) by simp
  have 1: "vlan4k_member s' (vid vlan) port \<longleftrightarrow> include"
    using m [OF assms(3)] p16 by (simp add: y_def bit_simps bit_BIT)
  have 2: "vlan4k_untag s' (vid vlan) port \<longleftrightarrow> include \<and> flags vlan AND 4 \<noteq> 0"
    using u [OF assms(3)] p16 by (simp add: y_def bit_simps bit_BIT)
  have 3: "vlan4k_member s' (vid vlan) q = vlan4k_member s (vid vlan) q
           \<and> vlan4k_untag s' (vid vlan) q = vlan4k_untag s (vid vlan) q"
    if "q < 11" "q \<noteq> port" for q
    using m [OF that(1)] u [OF that(1)] that
    by (auto simp add: y_def bit_simps bit_BIT vlan4k_member_def vlan4k_untag_def x_def)
  show ?thesis using a(1,2,4-7) 1 2 3 by blast
qed

lemma new_trace_append: "trace s' = trace s @ tr \<Longrightarrow> new_trace s s' = tr"
  by (simp add: new_trace_def)

lemma find_slot_range: "find P [1..<32] = Some i \<Longrightarrow> 1 \<le> i \<and> i < 32"
  by (auto simp: find_Some_iff)

lemma mc_evid_regs: "(\<forall>r. r \<ge> 0x530 \<longrightarrow> regs s' r = regs s r) \<Longrightarrow> mc_evid s' i = mc_evid s i"
  by (simp add: mc_evid_def mc_reg)

lemma port_pvid_regs:
  "(\<forall>r. r \<ge> 0x530 \<longrightarrow> regs s' r = regs s r) \<Longrightarrow> port_pvid s' p = port_pvid s p"
  by (simp add: port_pvid_def pvid_reg)

lemma port_accept_frame_regs:
  "(\<forall>r. r \<ge> 0x530 \<longrightarrow> regs s' r = regs s r) \<Longrightarrow> port_accept_frame s' p = port_accept_frame s p"
  by (simp add: port_accept_frame_def frame_reg)

lemma vlanmc_set_none:
  assumes "faults s = []" "vid vlan \<le> 0x1FFF" "slot_of s (vid vlan) = None"
    "flags vlan AND 2 = 0"
  shows "\<exists>s' tr. rtl8365mb_vlanmc_set s cpu port vlan include = (0, s')
           \<and> regs s' = regs s \<and> tables s' = tables s \<and> faults s' = []
           \<and> trace s' = trace s @ tr \<and> kinds tr = []"
proof -
  from scan_not_found [OF assms(1) assms(3) [unfolded slot_of_def], of "- 1" "[0, 0, 0, 0]"]
  obtain fu e s' tr where
    "vlanmc_scan s (vid vlan) [1..<32] (- 1) [0, 0, 0, 0] = (0, 32, fu, e, s')"
    "regs s' = regs s" "tables s' = tables s" "faults s' = []"
    "trace s' = trace s @ tr" "kinds tr = []"
    by blast
  then show ?thesis using assms(2,4)
    by (simp add: rtl8365mb_vlanmc_set_def vlanmc_new_def not_less [symmetric])
qed

lemma vlanmc_set_full:
  assumes "faults s = []" "vid vlan \<le> 0x1FFF" "slot_of s (vid vlan) = None"
    "flags vlan AND 2 \<noteq> 0" "free_slot s = None"
  shows "\<exists>s' tr. rtl8365mb_vlanmc_set s cpu port vlan include = (- EINVAL, s')
           \<and> regs s' = regs s \<and> tables s' = tables s \<and> faults s' = []
           \<and> trace s' = trace s @ tr \<and> kinds tr = []"
proof -
  from scan_not_found [OF assms(1) assms(3) [unfolded slot_of_def], of "- 1" "[0, 0, 0, 0]"]
  obtain e s' tr where
    "vlanmc_scan s (vid vlan) [1..<32] (- 1) [0, 0, 0, 0] = (0, 32, - 1, e, s')"
    "regs s' = regs s" "tables s' = tables s" "faults s' = []"
    "trace s' = trace s @ tr" "kinds tr = []"
    using assms(5) by (auto simp: free_slot_def)
  then show ?thesis using assms(2,4)
    by (simp add: rtl8365mb_vlanmc_set_def vlanmc_new_def not_less [symmetric])
qed

lemma vlanmc_set_slot:
  assumes "idle s" "port < 11" "vid vlan \<le> 0xFFF" "target_slot s vlan = Some idx"
    and P: "P = (include \<and> flags vlan AND 2 \<noteq> 0 \<and> idx \<noteq> port_pvid s port)"
    and af': "af' = (if \<not> include
                     then (if port_accept_frame s port = 0 \<and> port_pvid s port = idx then 1
                           else port_accept_frame s port)
                     else if flags vlan AND 2 \<noteq> 0 \<and> port_accept_frame s port = 1 then 0
                     else port_accept_frame s port)"
  shows "\<exists>s' tr. rtl8365mb_vlanmc_set s cpu port vlan include = (0, s')
           \<and> idle s' \<and> tables s' = tables s
           \<and> port_pvid s' port = (if include \<and> flags vlan AND 2 \<noteq> 0 then idx else port_pvid s port)
           \<and> port_accept_frame s' port = af'
           \<and> (\<forall>q < 11. q \<noteq> port \<longrightarrow> port_pvid s' q = port_pvid s q
                                \<and> port_accept_frame s' q = port_accept_frame s q)
           \<and> trace s' = trace s @ tr
           \<and> kinds tr = replicate 4 Slot @ (if P then [PortReg] else [])
                          @ (if af' \<noteq> port_accept_frame s port then [PortReg] else [])
           \<and> ((\<exists>v. Wr (RTL8365MB_VLAN_PVID_CTRL_REG port) v \<in> set tr) \<longleftrightarrow> P)"
proof -
  let ?v = "vid vlan"
  let ?pr = "RTL8365MB_VLAN_PVID_CTRL_REG port"
  have fs: "faults s = []" using assms(1) by (simp add: idle_def)
  have v: "\<not> ?v > 0x1FFF" using assms(3) by (simp add: word_le_nat_alt word_less_nat_alt)
  have nk: "Wr ?pr w \<notin> set tr" if "kinds tr = []" for tr w
  proof
    assume "Wr ?pr w \<in> set tr"
    then obtain a b where "tr = a @ Wr ?pr w # b" by (meson split_list)
    then show False using that assms(2) by (simp add: kinds_Wr_Some kind_pvid_reg)
  qed
  have B: "\<exists>s1 tr1 entry vlan4k. length entry = 4 \<and> idle s1 \<and> tables s1 = tables s
            \<and> (\<forall>r. r \<ge> 0x530 \<longrightarrow> regs s1 r = regs s r)
            \<and> trace s1 = trace s @ tr1 \<and> kinds tr1 = []
            \<and> rtl8365mb_vlanmc_set s cpu port vlan include =
                 vlanmc_commit s1 cpu port vlan include idx entry vlan4k \<and> idx < 32"
  proof (cases "slot_of s ?v")
    case (Some i)
    then have i: "i = idx" using assms(4) by (simp add: target_slot_def)
    have r: "1 \<le> idx \<and> idx < 32" using Some i find_slot_range by (simp add: slot_of_def)
    from scan_found [OF fs Some [unfolded slot_of_def i], of "- 1" "[0, 0, 0, 0]"]
    obtain fu s1 tr1 where a:
      "vlanmc_scan s ?v [1..<32] (- 1) [0, 0, 0, 0] = (0, idx, fu, mc_entry s idx, s1)"
      "regs s1 = regs s" "tables s1 = tables s" "faults s1 = []"
      "trace s1 = trace s @ tr1" "kinds tr1 = []"
      by blast
    have "idle s1" using a(2,4) assms(1) by (simp add: idle_def)
    moreover have "rtl8365mb_vlanmc_set s cpu port vlan include =
                 vlanmc_commit s1 cpu port vlan include idx (mc_entry s idx) vlan4k_zero"
      using a(1) v r by (simp add: rtl8365mb_vlanmc_set_def)
    moreover have "length (mc_entry s idx) = 4" by (simp add: mc_entry_def)
    ultimately show ?thesis using a r
      by (intro exI [of _ s1] exI [of _ tr1] exI [of _ "mc_entry s idx"] exI [of _ vlan4k_zero])
         simp
  next
    case None
    then have pv: "flags vlan AND 2 \<noteq> 0" and f: "free_slot s = Some idx"
      using assms(4) by (auto simp: target_slot_def split: if_splits)
    have r: "1 \<le> idx \<and> idx < 32" using f find_slot_range by (simp add: free_slot_def)
    from scan_not_found [OF fs None [unfolded slot_of_def], of "- 1" "[0, 0, 0, 0]"]
    obtain e s1 tr1 where a:
      "vlanmc_scan s ?v [1..<32] (- 1) [0, 0, 0, 0] = (0, 32, int idx, e, s1)"
      "regs s1 = regs s" "tables s1 = tables s" "faults s1 = []"
      "trace s1 = trace s @ tr1" "kinds tr1 = []"
      using f by (auto simp: free_slot_def)
    have i1: "idle s1" using a(2,4) assms(1) by (simp add: idle_def)
    from cvlan_read_ok [OF i1 assms(3), of "[0, 0, 0, 0]"] obtain s2 tr2 where b:
      "rtl8365mb_table_access s1 RTL8365MB_TABLE_CVLAN RTL8365MB_TABLE_READ ?v [0, 0, 0, 0] =
             (0, vlan4k_row s1 ?v @ [0], s2)"
      "idle s2" "tables s2 = tables s1" "\<forall>r. r \<ge> 0x530 \<longrightarrow> regs s2 r = regs s1 r"
      "trace s2 = trace s1 @ tr2" "kinds tr2 = []"
      by auto
    have "rtl8365mb_vlanmc_set s cpu port vlan include =
            vlanmc_commit s2 cpu port vlan include idx (vlan4k_row s1 ?v @ [0])
              (rtl8365mb_buf_vlan4k (vlan4k_row s1 ?v @ [0]) vlan4k_zero)"
      using a(1) b(1) v pv assms(3)
      by (simp add: rtl8365mb_vlanmc_set_def vlanmc_new_def)
    moreover have "length (vlan4k_row s1 ?v @ [0]) = 4" by simp
    ultimately show ?thesis using a b r
      by (intro exI [of _ s2] exI [of _ "tr1 @ tr2"] exI [of _ "vlan4k_row s1 ?v @ [0]"]
            exI [of _ "rtl8365mb_buf_vlan4k (vlan4k_row s1 ?v @ [0]) vlan4k_zero"]) simp
  qed
  then obtain s1 tr1 entry vlan4k where b:
    "length entry = 4" "idle s1" "tables s1 = tables s"
    "\<forall>r. r \<ge> 0x530 \<longrightarrow> regs s1 r = regs s r"
    "trace s1 = trace s @ tr1" "kinds tr1 = []"
    "rtl8365mb_vlanmc_set s cpu port vlan include =
       vlanmc_commit s1 cpu port vlan include idx entry vlan4k" "idx < 32"
    by blast
  have f1: "faults s1 = []" using b(2) by (simp add: idle_def)
  have pp: "port_pvid s1 q = port_pvid s q" for q using b(4) by (rule port_pvid_regs)
  have pf: "port_accept_frame s1 q = port_accept_frame s q" for q
    using b(4) by (rule port_accept_frame_regs)
  have P1: "P = (include \<and> flags vlan AND 2 \<noteq> 0 \<and> idx \<noteq> port_pvid s1 port)"
    using P by (simp add: pp)
  have af1: "af' = (if \<not> include
                     then (if port_accept_frame s1 port = 0 \<and> port_pvid s1 port = idx then 1
                           else port_accept_frame s1 port)
                     else if flags vlan AND 2 \<noteq> 0 \<and> port_accept_frame s1 port = 1 then 0
                     else port_accept_frame s1 port)"
    using af' by (simp add: pp pf)
  from commit_ok [OF f1 assms(2) b(8) b(1) P1 af1, of cpu vlan4k]
  obtain s' tr where c0:
    "vlanmc_commit s1 cpu port vlan include idx entry vlan4k = (0, s')"
    "faults s' = []" "tables s' = tables s1"
    "\<forall>r. r < 0x700 \<longrightarrow> regs s' r = regs s1 r"
    "port_pvid s' port = (if include \<and> flags vlan AND 2 \<noteq> 0 then idx else port_pvid s1 port)"
    "port_accept_frame s' port = af'"
    "\<forall>q < 11. q \<noteq> port \<longrightarrow> port_pvid s' q = port_pvid s1 q
                                \<and> port_accept_frame s' q = port_accept_frame s1 q"
    "trace s' = trace s1 @ tr"
    "kinds tr = replicate 4 Slot @ (if P then [PortReg] else [])
                  @ (if af' \<noteq> port_accept_frame s1 port then [PortReg] else [])"
    "(\<exists>v. Wr ?pr v \<in> set tr) \<longleftrightarrow> P"
    by blast
  note c = c0 [unfolded pp pf]
  have i: "idle s'" using c(2,4) b(2) by (simp add: idle_def)
  have w: "(\<exists>v. Wr ?pr v \<in> set (tr1 @ tr)) \<longleftrightarrow> P" using c(10) nk [OF b(6)] by auto
  show ?thesis
    using b(7) c(1,3,5,6,7,8,9) b(3,5,6) i w
    by (intro exI [of _ s'] exI [of _ "tr1 @ tr"]) simp
qed

lemma target_slot_regs:
  assumes "\<forall>r. r \<ge> 0x530 \<longrightarrow> regs s' r = regs s r"
  shows "slot_of s' v = slot_of s v" "free_slot s' = free_slot s"
    "target_slot s' vlan = target_slot s vlan"
proof -
  have e: "mc_evid s' = mc_evid s" using mc_evid_regs [OF assms] by (intro ext)
  show a: "slot_of s' v = slot_of s v" for v by (simp add: slot_of_def e)
  show b: "free_slot s' = free_slot s" by (simp add: free_slot_def e)
  show "target_slot s' vlan = target_slot s vlan" by (simp only: target_slot_def a b)
qed

lemma no_pvid_write:
  assumes "port < 11" "PortReg \<notin> set (kinds tr)"
  shows "Wr (RTL8365MB_VLAN_PVID_CTRL_REG port) w \<notin> set tr"
proof
  assume "Wr (RTL8365MB_VLAN_PVID_CTRL_REG port) w \<in> set tr"
  then obtain a b where "tr = a @ Wr (RTL8365MB_VLAN_PVID_CTRL_REG port) w # b"
    by (meson split_list)
  then show False using assms by (simp add: kinds_Wr_Some kind_pvid_reg)
qed

lemma vlan_add_slot:
  assumes "idle s" "port < 11" "vid vlan \<le> 0xFFF" "target_slot s vlan = Some idx"
  shows "\<exists>s'. rtl8365mb_vlan_add s cpu port vlan = (0, s') \<and> idle s'
           \<and> port_pvid s' port = (if flags vlan AND 2 \<noteq> 0 then idx else port_pvid s port)
           \<and> port_accept_frame s' port =
               (if flags vlan AND 2 \<noteq> 0 \<and> port_accept_frame s port = 1 then 0
                else port_accept_frame s port)
           \<and> (\<forall>q < 11. q \<noteq> port \<longrightarrow> port_pvid s' q = port_pvid s q
                                \<and> port_accept_frame s' q = port_accept_frame s q)
           \<and> vlan4k_member s' (vid vlan) port
           \<and> (vlan4k_untag s' (vid vlan) port \<longleftrightarrow> flags vlan AND 4 \<noteq> 0)
           \<and> kinds (new_trace s s') =
                replicate 4 Slot
                @ (if flags vlan AND 2 \<noteq> 0 \<and> idx \<noteq> port_pvid s port then [PortReg] else [])
                @ (if flags vlan AND 2 \<noteq> 0 \<and> port_accept_frame s port = 1 then [PortReg] else [])
                @ [ByID]
           \<and> ((\<exists>v. Wr (RTL8365MB_VLAN_PVID_CTRL_REG port) v \<in> set (new_trace s s'))
                \<longleftrightarrow> flags vlan AND 2 \<noteq> 0 \<and> idx \<noteq> port_pvid s port)"
proof -
  define af' where "af' = (if flags vlan AND 2 \<noteq> 0 \<and> port_accept_frame s port = 1 then 0
                           else port_accept_frame s port)"
  define P where "P = (flags vlan AND 2 \<noteq> 0 \<and> idx \<noteq> port_pvid s port)"
  from vlanmc_set_slot [OF assms, of P True af' cpu]
  obtain s1 tr1 where a:
    "rtl8365mb_vlanmc_set s cpu port vlan True = (0, s1)" "idle s1" "tables s1 = tables s"
    "port_pvid s1 port = (if flags vlan AND 2 \<noteq> 0 then idx else port_pvid s port)"
    "port_accept_frame s1 port = af'"
    "\<forall>q < 11. q \<noteq> port \<longrightarrow> port_pvid s1 q = port_pvid s q
                                \<and> port_accept_frame s1 q = port_accept_frame s q"
    "trace s1 = trace s @ tr1"
    "kinds tr1 = replicate 4 Slot @ (if P then [PortReg] else [])
                  @ (if af' \<noteq> port_accept_frame s port then [PortReg] else [])"
    "(\<exists>v. Wr (RTL8365MB_VLAN_PVID_CTRL_REG port) v \<in> set tr1) \<longleftrightarrow> P"
    by (auto simp: P_def af'_def)
  from vlan4k_set_bits [OF a(2) assms(3,2), of True] obtain s2 tr2 where b:
    "rtl8365mb_vlan4k_set s1 port vlan True = (0, s2)" "idle s2"
    "vlan4k_member s2 (vid vlan) port" "vlan4k_untag s2 (vid vlan) port \<longleftrightarrow> flags vlan AND 4 \<noteq> 0"
    "\<forall>r. r \<ge> 0x530 \<longrightarrow> regs s2 r = regs s1 r"
    "trace s2 = trace s1 @ tr2" "kinds tr2 = [ByID]"
    by auto
  have r: "rtl8365mb_vlan_add s cpu port vlan = (0, s2)"
    using a(1) b(1) by (simp add: rtl8365mb_vlan_add_def)
  have nt: "new_trace s s2 = tr1 @ tr2" using a(7) b(6) by (simp add: new_trace_def)
  have ch: "af' \<noteq> port_accept_frame s port \<longleftrightarrow> flags vlan AND 2 \<noteq> 0 \<and> port_accept_frame s port = 1"
    by (auto simp: af'_def)
  have w2: "Wr (RTL8365MB_VLAN_PVID_CTRL_REG port) w \<notin> set tr2" for w
    using no_pvid_write [OF assms(2), of tr2] b(7) by simp
  show ?thesis
    apply (intro exI [of _ s2])
    using r b(2,3,4) a(4,5,6,8,9) w2 ch
    by (auto simp: nt b(7) port_pvid_regs [OF b(5)] port_accept_frame_regs [OF b(5)]
          af'_def P_def)
qed

lemma idle_regs:
  "idle s \<Longrightarrow> regs s' = regs s \<Longrightarrow> faults s' = [] \<Longrightarrow> idle s'"
  by (simp add: idle_def)

lemma port_regs_eq:
  "regs s' = regs s \<Longrightarrow> port_pvid s' q = port_pvid s q"
  "regs s' = regs s \<Longrightarrow> port_accept_frame s' q = port_accept_frame s q"
  by (simp_all add: port_pvid_def port_accept_frame_def)

lemma vlan4k_tables_eq:
  assumes "tables s' = tables s"
  shows "vlan4k_member s' = vlan4k_member s" "vlan4k_untag s' = vlan4k_untag s"
proof -
  have "vlan4k_row s' = vlan4k_row s" by (intro ext) (simp add: vlan4k_row_def assms)
  then show "vlan4k_member s' = vlan4k_member s" "vlan4k_untag s' = vlan4k_untag s"
    by (simp_all add: vlan4k_member_def vlan4k_untag_def fun_eq_iff)
qed

lemma vlan_add_none:
  assumes "idle s" "port < 11" "vid vlan \<le> 0xFFF" "target_slot s vlan = None"
    "flags vlan AND 2 = 0"
  shows "\<exists>s'. rtl8365mb_vlan_add s cpu port vlan = (0, s') \<and> idle s'
           \<and> (\<forall>q. port_pvid s' q = port_pvid s q \<and> port_accept_frame s' q = port_accept_frame s q)
           \<and> vlan4k_member s' (vid vlan) port
           \<and> (vlan4k_untag s' (vid vlan) port \<longleftrightarrow> flags vlan AND 4 \<noteq> 0)
           \<and> kinds (new_trace s s') = [ByID]"
proof -
  have fs: "faults s = []" using assms(1) by (simp add: idle_def)
  have v: "vid vlan \<le> 0x1FFF" using assms(3) by (simp add: word_le_nat_alt)
  have so: "slot_of s (vid vlan) = None"
    using assms(4) by (simp add: target_slot_def split: option.splits)
  from vlanmc_set_none [OF fs v so assms(5), of cpu port True] obtain s1 tr1 where a:
    "rtl8365mb_vlanmc_set s cpu port vlan True = (0, s1)" "regs s1 = regs s"
    "tables s1 = tables s" "faults s1 = []" "trace s1 = trace s @ tr1" "kinds tr1 = []"
    by blast
  have i1: "idle s1" using assms(1) a(2,4) by (rule idle_regs)
  from vlan4k_set_bits [OF i1 assms(3,2), of True] obtain s2 tr2 where b:
    "rtl8365mb_vlan4k_set s1 port vlan True = (0, s2)" "idle s2"
    "vlan4k_member s2 (vid vlan) port" "vlan4k_untag s2 (vid vlan) port \<longleftrightarrow> flags vlan AND 4 \<noteq> 0"
    "\<forall>r. r \<ge> 0x530 \<longrightarrow> regs s2 r = regs s1 r"
    "trace s2 = trace s1 @ tr2" "kinds tr2 = [ByID]"
    by auto
  have r: "rtl8365mb_vlan_add s cpu port vlan = (0, s2)"
    using a(1) b(1) by (simp add: rtl8365mb_vlan_add_def)
  have nt: "new_trace s s2 = tr1 @ tr2" using a(5) b(6) by (simp add: new_trace_def)
  have rr: "\<forall>r. r \<ge> 0x530 \<longrightarrow> regs s2 r = regs s r" using b(5) a(2) by simp
  show ?thesis
    using r b(2,3,4) a(6) b(7)
    by (intro exI [of _ s2])
       (simp add: nt port_pvid_regs [OF rr] port_accept_frame_regs [OF rr])
qed

lemma vlan_add_full:
  assumes "faults s = []" "vid vlan \<le> 0x1FFF" "flags vlan AND 2 \<noteq> 0"
    "slot_of s (vid vlan) = None" "free_slot s = None"
  shows "\<exists>s'. rtl8365mb_vlan_add s cpu port vlan = (- EINVAL, s')
           \<and> regs s' = regs s \<and> tables s' = tables s \<and> faults s' = []
           \<and> kinds (new_trace s s') = []"
proof -
  from vlanmc_set_full [OF assms(1,2,4,3,5), of cpu port True] obtain s1 tr1 where a:
    "rtl8365mb_vlanmc_set s cpu port vlan True = (- EINVAL, s1)" "regs s1 = regs s"
    "tables s1 = tables s" "faults s1 = []" "trace s1 = trace s @ tr1" "kinds tr1 = []"
    by blast
  have r: "rtl8365mb_vlan_add s cpu port vlan = (- EINVAL, s1)"
    using a(1) by (simp add: rtl8365mb_vlan_add_def EINVAL_def)
  show ?thesis using r a by (intro exI [of _ s1]) (simp add: new_trace_def)
qed

lemma vlan_del_slot:
  assumes "idle s" "port < 11" "vid vlan \<le> 0xFFF" "target_slot s vlan = Some idx"
  shows "\<exists>s'. rtl8365mb_vlan_del s cpu port vlan = (0, s') \<and> idle s'
           \<and> port_pvid s' port = port_pvid s port
           \<and> port_accept_frame s' port =
               (if port_accept_frame s port = 0 \<and> port_pvid s port = idx then 1
                else port_accept_frame s port)
           \<and> (\<forall>q < 11. q \<noteq> port \<longrightarrow> port_pvid s' q = port_pvid s q
                                \<and> port_accept_frame s' q = port_accept_frame s q)
           \<and> \<not> vlan4k_member s' (vid vlan) port
           \<and> \<not> vlan4k_untag s' (vid vlan) port
           \<and> kinds (new_trace s s') =
                [ByID] @ replicate 4 Slot
                @ (if port_accept_frame s port = 0 \<and> port_pvid s port = idx then [PortReg] else [])"
proof -
  from vlan4k_set_bits [OF assms(1,3,2), of False] obtain s1 tr1 where b:
    "rtl8365mb_vlan4k_set s port vlan False = (0, s1)" "idle s1"
    "\<not> vlan4k_member s1 (vid vlan) port" "\<not> vlan4k_untag s1 (vid vlan) port"
    "\<forall>r. r \<ge> 0x530 \<longrightarrow> regs s1 r = regs s r"
    "trace s1 = trace s @ tr1" "kinds tr1 = [ByID]"
    by auto
  note pp = port_pvid_regs [OF b(5)] and pf = port_accept_frame_regs [OF b(5)]
  have t1: "target_slot s1 vlan = Some idx" using target_slot_regs(3) [OF b(5)] assms(4) by simp
  define af' where "af' = (if port_accept_frame s1 port = 0 \<and> port_pvid s1 port = idx then 1
                else port_accept_frame s1 port)"
  from vlanmc_set_slot [OF b(2) assms(2,3) t1, of False False af' cpu]
  obtain s2 tr2 where a:
    "rtl8365mb_vlanmc_set s1 cpu port vlan False = (0, s2)" "idle s2" "tables s2 = tables s1"
    "port_pvid s2 port = port_pvid s1 port"
    "port_accept_frame s2 port = af'"
    "\<forall>q < 11. q \<noteq> port \<longrightarrow> port_pvid s2 q = port_pvid s1 q
                                \<and> port_accept_frame s2 q = port_accept_frame s1 q"
    "trace s2 = trace s1 @ tr2"
    "kinds tr2 = replicate 4 Slot @ (if af' \<noteq> port_accept_frame s1 port then [PortReg] else [])"
    by (auto simp: af'_def)
  have r: "rtl8365mb_vlan_del s cpu port vlan = (0, s2)"
    using a(1) b(1) by (simp add: rtl8365mb_vlan_del_def)
  have nt: "new_trace s s2 = tr1 @ tr2" using a(7) b(6) by (simp add: new_trace_def)
  have ch: "af' \<noteq> port_accept_frame s1 port
              \<longleftrightarrow> port_accept_frame s1 port = 0 \<and> port_pvid s1 port = idx"
    by (auto simp: af'_def)
  note rows = vlan4k_tables_eq [OF a(3)]
  show ?thesis
    apply (intro exI [of _ s2])
    using r b(3,4) a(2,4,5,6,8) ch
    by (simp add: nt b(7) pp pf af'_def rows)
qed

lemma vlan_del_none:
  assumes "idle s" "port < 11" "vid vlan \<le> 0xFFF" "target_slot s vlan = None"
    "flags vlan AND 2 = 0"
  shows "\<exists>s'. rtl8365mb_vlan_del s cpu port vlan = (0, s') \<and> idle s'
           \<and> (\<forall>q. port_pvid s' q = port_pvid s q \<and> port_accept_frame s' q = port_accept_frame s q)
           \<and> \<not> vlan4k_member s' (vid vlan) port
           \<and> kinds (new_trace s s') = [ByID]"
proof -
  from vlan4k_set_bits [OF assms(1,3,2), of False] obtain s1 tr1 where b:
    "rtl8365mb_vlan4k_set s port vlan False = (0, s1)" "idle s1"
    "\<not> vlan4k_member s1 (vid vlan) port"
    "\<forall>r. r \<ge> 0x530 \<longrightarrow> regs s1 r = regs s r"
    "trace s1 = trace s @ tr1" "kinds tr1 = [ByID]"
    by auto
  note pp = port_pvid_regs [OF b(4)] and pf = port_accept_frame_regs [OF b(4)]
  have f1: "faults s1 = []" using b(2) by (simp add: idle_def)
  have v: "vid vlan \<le> 0x1FFF" using assms(3) by (simp add: word_le_nat_alt)
  have so: "slot_of s1 (vid vlan) = None"
    using assms(4) target_slot_regs(1) [OF b(4)] by (simp add: target_slot_def split: option.splits)
  from vlanmc_set_none [OF f1 v so assms(5), of cpu port False] obtain s2 tr2 where a:
    "rtl8365mb_vlanmc_set s1 cpu port vlan False = (0, s2)" "regs s2 = regs s1"
    "tables s2 = tables s1" "faults s2 = []" "trace s2 = trace s1 @ tr2" "kinds tr2 = []"
    by blast
  have r: "rtl8365mb_vlan_del s cpu port vlan = (0, s2)"
    using a(1) b(1) by (simp add: rtl8365mb_vlan_del_def)
  have nt: "new_trace s s2 = tr1 @ tr2" using a(5) b(5) by (simp add: new_trace_def)
  have i2: "idle s2" using b(2) a(2,4) by (rule idle_regs)
  note rows = vlan4k_tables_eq [OF a(3)]
  show ?thesis
    using r i2 b(3) a(6) b(6)
    by (intro exI [of _ s2])
       (simp add: nt rows port_regs_eq [OF a(2)] pp pf)
qed

lemma vlan_del_full:
  assumes "idle s" "port < 11" "vid vlan \<le> 0xFFF" "target_slot s vlan = None"
    "flags vlan AND 2 \<noteq> 0"
  shows "\<exists>s'. rtl8365mb_vlan_del s cpu port vlan = (1, s')
           \<and> (\<forall>q. port_pvid s' q = port_pvid s q \<and> port_accept_frame s' q = port_accept_frame s q)
           \<and> kinds (new_trace s s') = [ByID]"
proof -
  from vlan4k_set_bits [OF assms(1,3,2), of False] obtain s1 tr1 where b:
    "rtl8365mb_vlan4k_set s port vlan False = (0, s1)" "idle s1"
    "\<forall>r. r \<ge> 0x530 \<longrightarrow> regs s1 r = regs s r"
    "trace s1 = trace s @ tr1" "kinds tr1 = [ByID]"
    by auto
  note pp = port_pvid_regs [OF b(3)] and pf = port_accept_frame_regs [OF b(3)]
  have f1: "faults s1 = []" using b(2) by (simp add: idle_def)
  have v: "vid vlan \<le> 0x1FFF" using assms(3) by (simp add: word_le_nat_alt)
  have so: "slot_of s1 (vid vlan) = None" and fr: "free_slot s1 = None"
    using assms(4,5) target_slot_regs(1,2) [OF b(3)]
    by (simp_all add: target_slot_def split: option.splits)
  from vlanmc_set_full [OF f1 v so assms(5) fr, of cpu port False] obtain s2 tr2 where a:
    "rtl8365mb_vlanmc_set s1 cpu port vlan False = (- EINVAL, s2)" "regs s2 = regs s1"
    "tables s2 = tables s1" "faults s2 = []" "trace s2 = trace s1 @ tr2" "kinds tr2 = []"
    by blast
  have r: "rtl8365mb_vlan_del s cpu port vlan = (1, s2)"
    using a(1) b(1) by (simp add: rtl8365mb_vlan_del_def EINVAL_def)
  have nt: "new_trace s s2 = tr1 @ tr2" using a(5) b(4) by (simp add: new_trace_def)
  show ?thesis
    using r a(6) b(5)
    by (intro exI [of _ s2])
       (simp add: nt port_regs_eq [OF a(2)] pp pf)
qed

section \<open>Propagation of transport errors\<close>

lemma poll_reg_fail:
  "faults s = e # es \<Longrightarrow> e \<noteq> 0 \<Longrightarrow> poll_reg n s r c = (e, 0, s\<lparr>faults := es\<rparr>)"
  by (cases n) (simp_all add: regmap_read_def next_fault_def)

lemma FIELD_GET_0 [simp]: "FIELD_GET h l 0 = 0"
  by (simp add: FIELD_GET_def)

lemma mc_evid_chip0 [simp]: "mc_evid chip0 i = 0"
  by (simp add: mc_evid_def chip0_def)

lemma vlan4k_set_first_fault:
  "faults s = e # es \<Longrightarrow> e \<noteq> 0 \<Longrightarrow> vid vlan \<le> 0xFFF \<Longrightarrow>
   rtl8365mb_vlan4k_set s port vlan include = (e, s\<lparr>faults := es\<rparr>)"
  by (simp add: rtl8365mb_vlan4k_set_def rtl8365mb_table_access_def rtl8365mb_table_access_sz_def
        RTL8365MB_TABLE_CVLAN_def RTL8365MB_NUM_TABLES_def FIELD_FIT_13_0 word_le_nat_alt
        word_less_nat_alt
        regmap_read_poll_timeout_def poll_reg_fail not_less [symmetric] Let_def)

text \<open>
  Claim C2. A transport error met by an indirect PHY register write is not returned:
  \<open>rtl8365mb_phy_ocp_write\<close> returns 0 on every chip, also when the first bus access
  fails with \<open>-EIO\<close> and the value of \<open>ret\<close> at the label \<open>out\<close> is \<open>-EIO\<close>, and so
  \<open>rtl8365mb_phy_write\<close> reports success and logs nothing; the read counterpart returns
  \<open>-EIO\<close> on the same chip. A VLAN delete whose by-ID table access fails with \<open>-EIO\<close>
  returns 1, not \<open>-EIO\<close>.
\<close>

theorem transport_error_not_propagated:
  "fst (rtl8365mb_phy_ocp_write s phy ocp_addr data) = 0
   \<and> phy_ocp_write_out (chip0\<lparr>faults := [- EIO]\<rparr>) 0 0xA400 0x1234 = (- EIO, chip0)
   \<and> rtl8365mb_phy_ocp_write (chip0\<lparr>faults := [- EIO]\<rparr>) 0 0xA400 0x1234 = (0, chip0)
   \<and> rtl8365mb_phy_write (chip0\<lparr>faults := [- EIO]\<rparr>) 0 0 0x1234 = (0, False, chip0)
   \<and> fst (rtl8365mb_phy_ocp_read (chip0\<lparr>faults := [- EIO]\<rparr>) 0 0xA400 0) = - EIO
   \<and> rtl8365mb_vlan4k_set (chip0\<lparr>faults := [- EIO]\<rparr>) 2 \<lparr>vid = 10, flags = 0\<rparr> False
       = (- EIO, chip0)
   \<and> fst (rtl8365mb_vlan_del (chip0\<lparr>faults := [- EIO]\<rparr>) 0x100 2 \<lparr>vid = 10, flags = 0\<rparr>) = 1"
proof -
  let ?s = "chip0\<lparr>faults := [- EIO]\<rparr>"
  let ?vl = "\<lparr>vid = 10, flags = 0\<rparr> :: switchdev_obj_port_vlan"
  have f: "faults ?s = [- EIO]" "- EIO \<noteq> 0" "?s\<lparr>faults := []\<rparr> = chip0"
    by (simp_all add: chip0_def EIO_def)
  have e0: "EIO \<noteq> 0" by (simp add: EIO_def)
  have pb: "rtl8365mb_phy_poll_busy ?s = (- EIO, chip0)"
    by (simp add: rtl8365mb_phy_poll_busy_def regmap_read_poll_timeout_def
          poll_reg_fail [OF f(1,2)] f(3))
  have 1: "fst (rtl8365mb_phy_ocp_write s phy ocp_addr data) = 0"
    by (simp add: rtl8365mb_phy_ocp_write_def split: prod.splits)
  have 2: "phy_ocp_write_out ?s 0 0xA400 0x1234 = (- EIO, chip0)"
    by (simp add: phy_ocp_write_out_def pb e0)
  have 3: "rtl8365mb_phy_ocp_write ?s 0 0xA400 0x1234 = (0, chip0)"
    by (simp add: rtl8365mb_phy_ocp_write_def 2)
  have 4: "rtl8365mb_phy_write ?s 0 0 0x1234 = (0, False, chip0)"
    using 3 by (simp add: rtl8365mb_phy_write_def RTL8365MB_PHYADDRMAX_def RTL8365MB_PHYREGMAX_def)
  have 5: "fst (rtl8365mb_phy_ocp_read ?s 0 0xA400 0) = - EIO"
    by (simp add: rtl8365mb_phy_ocp_read_def pb e0)
  have 6: "rtl8365mb_vlan4k_set ?s 2 ?vl False = (- EIO, chip0)"
    using vlan4k_set_first_fault [OF f(1,2), of ?vl 2 False] by (simp add: f(3))
  have so: "slot_of chip0 (vid ?vl) = None"
    by (simp add: slot_of_def find_None_iff)
  have fz: "faults chip0 = []" by (simp add: chip0_def)
  have vv: "vid ?vl \<le> 0x1FFF" "flags ?vl AND 2 = 0" by simp_all
  from vlanmc_set_none [OF fz vv(1) so vv(2)]
  obtain s' where 7: "rtl8365mb_vlanmc_set chip0 0x100 2 ?vl False = (0, s')"
    by blast
  have 8: "fst (rtl8365mb_vlan_del ?s 0x100 2 ?vl) = 1"
    by (simp add: rtl8365mb_vlan_del_def 6 7 e0)
  show ?thesis using 1 2 3 4 5 6 8 by simp
qed

theorem transport_error_not_propagated_witness:
  "fst (rtl8365mb_phy_ocp_write (chip0\<lparr>faults := [- ETIMEDOUT]\<rparr>) 1 0xA402 7) = 0
   \<and> fst (phy_ocp_write_out (chip0\<lparr>faults := [- EIO]\<rparr>) 0 0xA400 0x1234) \<noteq> 0
   \<and> fst (rtl8365mb_vlan4k_set (chip0\<lparr>faults := [- EIO]\<rparr>) 2 \<lparr>vid = 10, flags = 0\<rparr> False)
       \<noteq> fst (rtl8365mb_vlan_del (chip0\<lparr>faults := [- EIO]\<rparr>) 0x100 2 \<lparr>vid = 10, flags = 0\<rparr>)"
  using transport_error_not_propagated [of "chip0\<lparr>faults := [- ETIMEDOUT]\<rparr>" 1 "0xA402" 7]
  by (simp add: EIO_def)

section \<open>Adding a VLAN with the PVID flag\<close>

lemma idle_chip0: "idle chip0"
  by (simp add: idle_def chip0_def)

lemma vlanmc_buf_zero:
  "rtl8365mb_vlanmc_buf (vlanmc_zero\<lparr>vid_mc := 0\<rparr>) [0, 0, 0, 0] = [0, 0, 0, 0]"
  by (simp add: rtl8365mb_vlanmc_buf_def vlanmc_zero_def FIELD_PREP_def)

text \<open>The chip after \<open>rtl8365mb_vlan_init\<close> on a chip after reset with CPU port 8: no
  context slot holds a VLAN ID, every port has PVID index 0 and accepts any frame.\<close>

lemma vlan_init_chip0:
  "\<exists>s'. rtl8365mb_vlan_init chip0 [8] = (0, s') \<and> idle s'
     \<and> (\<forall>r. 0x530 \<le> r \<and> r \<noteq> 0x7A8 \<longrightarrow> regs s' r = 0)"
proof -
  let ?vl = "\<lparr>vid = 0, flags = 4\<rparr> :: switchdev_obj_port_vlan"
  have v: "vid ?vl \<le> 0xFFF" by simp
  from vlan4k_set_ok [OF idle_chip0 v refl, of 8 True] obtain s1 where a:
    "rtl8365mb_vlan4k_set chip0 8 ?vl True = (0, s1)" "idle s1"
    "\<forall>r. r \<ge> 0x530 \<longrightarrow> regs s1 r = regs chip0 r"
    by blast
  have f1: "faults s1 = []" using a(2) by (simp add: idle_def)
  define s2 where "s2 = s1\<lparr>regs := (\<lambda>a. if 0x728 \<le> a \<and> a < 0x728 + length [0, 0, 0, 0 :: u16]
                                        then [0, 0, 0, 0] ! (a - 0x728) else regs s1 a),
            trace := trace s1 @ map (\<lambda>k. Wr (0x728 + k) ([0, 0, 0, 0] ! k)) [0..<length [0, 0, 0, 0 :: u16]]\<rparr>"
  have b: "regmap_bulk_write s1 (RTL8365MB_VLAN_MC_CONF_REG 0) [0, 0, 0, 0] = (0, s2)"
    unfolding s2_def mc_reg using bulk_write_ok [OF f1, of "[0, 0, 0, 0]" "0x728"] by simp
  have f2: "faults s2 = []" using f1 by (simp add: s2_def)
  have r2: "regs s2 r = 0" if "0x530 \<le> r" for r
  proof -
    have 1: "regs s1 r = 0" using a(3) that by (simp add: chip0_def)
    have z: "[0, 0, 0, 0 :: u16] ! k = 0" if "k < 4" for k
      using that by (cases k rule: nat.exhaust; simp add: nth_Cons')
    have "r < 0x728 + 4 \<Longrightarrow> 0x728 \<le> r \<Longrightarrow> r - 0x728 < 4" by arith
    then show ?thesis using 1 z [of "r - 0x728"] by (simp add: s2_def)
  qed
  have l2: "regs s2 RTL8365MB_TABLE_LUT_REG = regs s1 RTL8365MB_TABLE_LUT_REG"
    by (simp add: s2_def)
  define s3 where "s3 = snd (regmap_update_bits s2 RTL8365MB_VLAN_CTRL_REG (GENMASK 0 0)
                                 (FIELD_PREP 0 0 1))"
  have c: "regmap_update_bits s2 RTL8365MB_VLAN_CTRL_REG (GENMASK 0 0) (FIELD_PREP 0 0 1)
             = (0, s3)"
    and s3: "faults s3 = []" "\<forall>r. r \<noteq> 0x7A8 \<longrightarrow> regs s3 r = regs s2 r"
    unfolding s3_def using f2 by (simp_all add: update_bits_ok [OF f2] Let_def)
  have i3: "idle s3" using s3 l2 a(2) by (simp add: idle_def)
  have "rtl8365mb_vlan_init chip0 [8] = (0, s3)"
    using a(1) b c by (simp add: rtl8365mb_vlan_init_def vlanmc_buf_zero)
  then show ?thesis using i3 s3(2) r2 by auto
qed

lemma init_facts:
  "fst (rtl8365mb_vlan_init chip0 [8]) = 0"
  "idle (snd (rtl8365mb_vlan_init chip0 [8]))"
  "mc_evid (snd (rtl8365mb_vlan_init chip0 [8])) i = 0"
  "q < 11 \<Longrightarrow> port_pvid (snd (rtl8365mb_vlan_init chip0 [8])) q = 0"
  "port_accept_frame (snd (rtl8365mb_vlan_init chip0 [8])) q = 0"
proof -
  from vlan_init_chip0 obtain s' where a: "rtl8365mb_vlan_init chip0 [8] = (0, s')" "idle s'"
    "\<forall>r. 0x530 \<le> r \<and> r \<noteq> 0x7A8 \<longrightarrow> regs s' r = 0"
    by blast
  show "fst (rtl8365mb_vlan_init chip0 [8]) = 0" "idle (snd (rtl8365mb_vlan_init chip0 [8]))"
    using a by simp_all
  have "RTL8365MB_VLAN_MC_CONF_REG i + 3 \<noteq> 0x7A8" unfolding mc_reg by presburger
  then show "mc_evid (snd (rtl8365mb_vlan_init chip0 [8])) i = 0"
    using a(3) by (simp add: a(1) mc_evid_def mc_reg)
  show "port_pvid (snd (rtl8365mb_vlan_init chip0 [8])) q = 0" if "q < 11"
    using a(3) that by (simp add: a(1) port_pvid_def pvid_reg)
  show "port_accept_frame (snd (rtl8365mb_vlan_init chip0 [8])) q = 0"
    using a(3) by (simp add: a(1) port_accept_frame_def frame_reg)
qed

text \<open>
  Claim C5. An add with the PVID flag, on a chip whose bus does not fail, on a port of the
  switch and for a VLAN ID of the by-ID table, working on the slot \<open>idx\<close>: the add succeeds,
  the PVID register of the port is written if and only if the PVID index of the port
  differs from \<open>idx\<close>, and afterwards the PVID index of the port is \<open>idx\<close> and that of
  every other port is unchanged. In the by-ID entry of the VLAN the member bit of the port
  is set, and its untag bit is set exactly when the untagged flag was given.
\<close>

theorem pvid_rewritten_iff_differs:
  assumes "idle s" "port < 11" "vid vlan \<le> RTL8365MB_MAX_4K_VID"
    and "flags vlan AND BRIDGE_VLAN_INFO_PVID \<noteq> 0" "target_slot s vlan = Some idx"
  shows "fst (rtl8365mb_vlan_add s cpu port vlan) = 0
    \<and> ((\<exists>v. Wr (RTL8365MB_VLAN_PVID_CTRL_REG port) v
              \<in> set (new_trace s (snd (rtl8365mb_vlan_add s cpu port vlan))))
         \<longleftrightarrow> port_pvid s port \<noteq> idx)
    \<and> port_pvid (snd (rtl8365mb_vlan_add s cpu port vlan)) port = idx
    \<and> (\<forall>q < 11. q \<noteq> port \<longrightarrow>
           port_pvid (snd (rtl8365mb_vlan_add s cpu port vlan)) q = port_pvid s q)
    \<and> vlan4k_member (snd (rtl8365mb_vlan_add s cpu port vlan)) (vid vlan) port
    \<and> (vlan4k_untag (snd (rtl8365mb_vlan_add s cpu port vlan)) (vid vlan) port
         \<longleftrightarrow> flags vlan AND BRIDGE_VLAN_INFO_UNTAGGED \<noteq> 0)"
proof -
  from vlan_add_slot [OF assms(1,2,3,5), of cpu] obtain s' where
    "rtl8365mb_vlan_add s cpu port vlan = (0, s')"
    "port_pvid s' port = (if flags vlan AND 2 \<noteq> 0 then idx else port_pvid s port)"
    "\<forall>q < 11. q \<noteq> port \<longrightarrow> port_pvid s' q = port_pvid s q
                                \<and> port_accept_frame s' q = port_accept_frame s q"
    "vlan4k_member s' (vid vlan) port"
    "vlan4k_untag s' (vid vlan) port \<longleftrightarrow> flags vlan AND 4 \<noteq> 0"
    "(\<exists>v. Wr (RTL8365MB_VLAN_PVID_CTRL_REG port) v \<in> set (new_trace s s'))
                \<longleftrightarrow> flags vlan AND 2 \<noteq> 0 \<and> idx \<noteq> port_pvid s port"
    by blast
  then show ?thesis using assms(4) by auto
qed

theorem pvid_rewritten_iff_differs_witness:
  "fst (rtl8365mb_vlan_init chip0 [8]) = 0
   \<and> port_pvid (snd (rtl8365mb_vlan_init chip0 [8])) 2 = 0
   \<and> target_slot (snd (rtl8365mb_vlan_init chip0 [8])) \<lparr>vid = 10, flags = 2\<rparr> = Some 1
   \<and> fst (rtl8365mb_vlan_add (snd (rtl8365mb_vlan_init chip0 [8])) 0x100 2
            \<lparr>vid = 10, flags = 2\<rparr>) = 0
   \<and> (\<exists>v. Wr (RTL8365MB_VLAN_PVID_CTRL_REG 2) v
            \<in> set (new_trace (snd (rtl8365mb_vlan_init chip0 [8]))
                    (snd (rtl8365mb_vlan_add (snd (rtl8365mb_vlan_init chip0 [8])) 0x100 2
                            \<lparr>vid = 10, flags = 2\<rparr>))))
   \<and> port_pvid (snd (rtl8365mb_vlan_add (snd (rtl8365mb_vlan_init chip0 [8])) 0x100 2
                       \<lparr>vid = 10, flags = 2\<rparr>)) 2 = 1
   \<and> vlan4k_member (snd (rtl8365mb_vlan_add (snd (rtl8365mb_vlan_init chip0 [8])) 0x100 2
                           \<lparr>vid = 10, flags = 2\<rparr>)) 10 2
   \<and> \<not> vlan4k_untag (snd (rtl8365mb_vlan_add (snd (rtl8365mb_vlan_init chip0 [8])) 0x100 2
                            \<lparr>vid = 10, flags = 2\<rparr>)) 10 2"
proof -
  let ?s = "snd (rtl8365mb_vlan_init chip0 [8])"
  let ?vl = "\<lparr>vid = 10, flags = 2\<rparr> :: switchdev_obj_port_vlan"
  have so: "slot_of ?s 10 = None" by (simp add: slot_of_def find_None_iff init_facts(3))
  have fr: "free_slot ?s = Some 1" by (simp add: free_slot_def init_facts(3) upt_conv_Cons)
  have t: "target_slot ?s ?vl = Some 1" by (simp add: target_slot_def so fr)
  have p: "port_pvid ?s 2 = 0" by (simp add: init_facts(4))
  show ?thesis
    using pvid_rewritten_iff_differs [of ?s 2 ?vl 1 "0x100", OF init_facts(2) _ _ _ t]
      init_facts(1) p t
    by simp
qed

section \<open>The accepted frame type of a port\<close>

lemma add_result_cases:
  assumes "idle s" "port < 11" "vid vlan \<le> 0xFFF"
  shows "\<exists>s'. rtl8365mb_vlan_add s cpu port vlan
                 = (if flags vlan AND 2 \<noteq> 0 \<and> target_slot s vlan = None then - EINVAL else 0, s')
           \<and> port_accept_frame s' port =
               (if flags vlan AND 2 \<noteq> 0 \<and> port_accept_frame s port = 1
                   \<and> target_slot s vlan \<noteq> None then 0
                else port_accept_frame s port)
           \<and> (\<forall>q < 11. q \<noteq> port \<longrightarrow> port_accept_frame s' q = port_accept_frame s q)"
proof (cases "target_slot s vlan")
  case (Some idx)
  from vlan_add_slot [OF assms Some, of cpu] obtain s' where
    "rtl8365mb_vlan_add s cpu port vlan = (0, s')"
    "port_accept_frame s' port =
               (if flags vlan AND 2 \<noteq> 0 \<and> port_accept_frame s port = 1 then 0
                else port_accept_frame s port)"
    "\<forall>q < 11. q \<noteq> port \<longrightarrow> port_pvid s' q = port_pvid s q
                                \<and> port_accept_frame s' q = port_accept_frame s q"
    by blast
  then show ?thesis using Some by (intro exI [of _ s']) simp
next
  case None
  show ?thesis
  proof (cases "flags vlan AND 2 = 0")
    case True
    from vlan_add_none [OF assms None True, of cpu] obtain s' where
      "rtl8365mb_vlan_add s cpu port vlan = (0, s')"
      "\<forall>q. port_pvid s' q = port_pvid s q \<and> port_accept_frame s' q = port_accept_frame s q"
      by blast
    then show ?thesis using None True by (intro exI [of _ s']) simp
  next
    case False
    have fs: "faults s = []" using assms(1) by (simp add: idle_def)
    have v: "vid vlan \<le> 0x1FFF" using assms(3) by (simp add: word_le_nat_alt)
    have so: "slot_of s (vid vlan) = None" "free_slot s = None"
      using None False by (simp_all add: target_slot_def split: option.splits)
    from vlan_add_full [OF fs v False so, of cpu port] obtain s' where
      a: "rtl8365mb_vlan_add s cpu port vlan = (- EINVAL, s')" "regs s' = regs s"
      by blast
    have "port_accept_frame s' q = port_accept_frame s q" for q
      using a(2) by (rule port_regs_eq(2))
    then show ?thesis using None False a(1)
      by (intro exI [of _ s']) simp
  qed
qed

lemma del_result_cases:
  assumes "idle s" "port < 11" "vid vlan \<le> 0xFFF"
  shows "\<exists>s'. rtl8365mb_vlan_del s cpu port vlan
                 = (if flags vlan AND 2 \<noteq> 0 \<and> target_slot s vlan = None then 1 else 0, s')
           \<and> port_accept_frame s' port =
               (if port_accept_frame s port = 0 \<and> target_slot s vlan = Some (port_pvid s port)
                then 1 else port_accept_frame s port)
           \<and> (\<forall>q < 11. q \<noteq> port \<longrightarrow> port_accept_frame s' q = port_accept_frame s q)"
proof (cases "target_slot s vlan")
  case (Some idx)
  from vlan_del_slot [OF assms Some, of cpu] obtain s' where
    "rtl8365mb_vlan_del s cpu port vlan = (0, s')"
    "port_accept_frame s' port =
               (if port_accept_frame s port = 0 \<and> port_pvid s port = idx then 1
                else port_accept_frame s port)"
    "\<forall>q < 11. q \<noteq> port \<longrightarrow> port_pvid s' q = port_pvid s q
                                \<and> port_accept_frame s' q = port_accept_frame s q"
    by blast
  then show ?thesis using Some by (intro exI [of _ s']) (simp add: eq_commute [of idx])
next
  case None
  show ?thesis
  proof (cases "flags vlan AND 2 = 0")
    case True
    from vlan_del_none [OF assms None True, of cpu] obtain s' where
      "rtl8365mb_vlan_del s cpu port vlan = (0, s')"
      "\<forall>q. port_pvid s' q = port_pvid s q \<and> port_accept_frame s' q = port_accept_frame s q"
      by blast
    then show ?thesis using None True by (intro exI [of _ s']) simp
  next
    case False
    from vlan_del_full [OF assms None False, of cpu] obtain s' where
      "rtl8365mb_vlan_del s cpu port vlan = (1, s')"
      "\<forall>q. port_pvid s' q = port_pvid s q \<and> port_accept_frame s' q = port_accept_frame s q"
      by blast
    then show ?thesis using None False by (intro exI [of _ s']) simp
  qed
qed

lemma bit_mc_vid: "(v::u16) \<le> 0x1FFF \<Longrightarrow> bit v n \<Longrightarrow> n < 13"
proof -
  assume a: "v \<le> 0x1FFF" and b: "bit v n"
  have "v < 2 ^ 13" using a by (simp add: word_le_nat_alt word_less_nat_alt)
  then have "v AND mask 13 = v" by (rule less_mask_eq)
  then have "bit (v AND mask 13) n" using b by simp
  then show "n < 13" by (simp add: bit_simps)
qed

lemma evid_of_buf:
  assumes "(v::u16) \<le> 0x1FFF"
  shows "FIELD_GET 12 0 ((b AND NOT (GENMASK 12 0)) OR FIELD_PREP 12 0 v) = v"
proof -
  have h: "\<forall>n. bit v n \<longrightarrow> n \<le> 12" using bit_mc_vid [OF assms] by fastforce
  show ?thesis
    using h by (intro bit_eqI) (auto simp: bit_FIELD_GET bit_FIELD_PREP bit_GENMASK bit_simps
        dest: bit_imp_le_length)
qed

lemma vlanmc_buf_3:
  "length entry = 4 \<Longrightarrow>
   rtl8365mb_vlanmc_buf m entry ! 3 = (entry ! 3 AND NOT (GENMASK 12 0)) OR FIELD_PREP 12 0 (vid_mc m)"
  by (simp add: rtl8365mb_vlanmc_buf_def)

lemma commit_unfold_evid:
  assumes "faults s = []" "length entry = 4" "vid vlan \<le> 0x1FFF"
  shows "\<exists>e. length e = 4 \<and> (include \<longrightarrow> FIELD_GET 12 0 (e ! 3) = vid vlan) \<and>
     vlanmc_commit s cpu port vlan include idx entry vlan4k =
       (case regmap_bulk_write
               (s\<lparr>trace := trace s @ [Rd (RTL8365MB_VLAN_PVID_CTRL_REG port),
                                       Rd (RTL8365MB_VLAN_ACCEPT_FRAME_TYPE_REG port)]\<rparr>)
               (RTL8365MB_VLAN_MC_CONF_REG idx) e of
          (ret, s3) \<Rightarrow>
            if ret \<noteq> 0 then (ret, s3)
            else vlanmc_adjust s3 port vlan include idx (port_pvid s port)
                   (port_accept_frame s port))"
proof -
  define m0 where "m0 = rtl8365mb_buf_vlanmc entry vlanmc_zero"
  define m1 where "m1 = m0\<lparr>member_mc := member_mc m0 OR member_4k vlan4k\<rparr>"
  define m2 where "m2 = (if include then m1\<lparr>member_mc := member_mc m1 OR BIT port\<rparr>
                          else m1\<lparr>member_mc := member_mc m1 AND NOT (BIT port)\<rparr>)"
  define m3 where "m3 = m2\<lparr>vid_mc := vid vlan\<rparr>"
  define e where
    "e = (if \<not> include \<and> ucast (member_mc m3) AND NOT cpu = 0 then [0, 0, 0, 0]
          else rtl8365mb_vlanmc_buf m3 entry)"
  have le: "length e = 4" using assms(2) by (simp add: e_def)
  have ev: "FIELD_GET 12 0 (e ! 3) = vid vlan" if "include"
    using that by (simp add: e_def vlanmc_buf_3 [OF assms(2)] m3_def evid_of_buf [OF assms(3)])
  have r1: "regmap_read s (RTL8365MB_VLAN_PVID_CTRL_REG port) =
              (0, ucast (regs s (RTL8365MB_VLAN_PVID_CTRL_REG port)),
               s\<lparr>trace := trace s @ [Rd (RTL8365MB_VLAN_PVID_CTRL_REG port)]\<rparr>)"
    using assms(1) by (simp add: regmap_read_ok)
  have r2: "regmap_read (s\<lparr>trace := trace s @ [Rd (RTL8365MB_VLAN_PVID_CTRL_REG port)]\<rparr>)
              (RTL8365MB_VLAN_ACCEPT_FRAME_TYPE_REG port) =
              (0, ucast (regs s (RTL8365MB_VLAN_ACCEPT_FRAME_TYPE_REG port)),
               s\<lparr>trace := trace s @ [Rd (RTL8365MB_VLAN_PVID_CTRL_REG port),
                                       Rd (RTL8365MB_VLAN_ACCEPT_FRAME_TYPE_REG port)]\<rparr>)"
    using assms(1) by (simp add: regmap_read_ok)
  have "vlanmc_commit s cpu port vlan include idx entry vlan4k =
       (case regmap_bulk_write
               (s\<lparr>trace := trace s @ [Rd (RTL8365MB_VLAN_PVID_CTRL_REG port),
                                       Rd (RTL8365MB_VLAN_ACCEPT_FRAME_TYPE_REG port)]\<rparr>)
               (RTL8365MB_VLAN_MC_CONF_REG idx) e of
          (ret, s3) \<Rightarrow>
            if ret \<noteq> 0 then (ret, s3)
            else vlanmc_adjust s3 port vlan include idx (port_pvid s port)
                   (port_accept_frame s port))"
    by (simp only: vlanmc_commit_def r1 r2 prod.case Let_def port_pvid_def port_accept_frame_def
          e_def m3_def m2_def m1_def m0_def simp_thms if_False)
  then show ?thesis using le ev by blast
qed

text \<open>What \<open>vlanmc_commit\<close> leaves in the context slots.\<close>

lemma commit_slots:
  assumes "faults s = []" "port < 11" "idx < 32" "length entry = 4" "vid vlan \<le> 0x1FFF"
  shows "(include \<longrightarrow>
            mc_evid (snd (vlanmc_commit s cpu port vlan include idx entry vlan4k)) idx = vid vlan)
       \<and> (\<forall>j < 32. j \<noteq> idx \<longrightarrow>
            mc_evid (snd (vlanmc_commit s cpu port vlan include idx entry vlan4k)) j
              = mc_evid s j)"
proof -
  let ?pr = "RTL8365MB_VLAN_PVID_CTRL_REG port"
  let ?fr = "RTL8365MB_VLAN_ACCEPT_FRAME_TYPE_REG port"
  let ?mr = "RTL8365MB_VLAN_MC_CONF_REG idx"
  have mrb: "0x728 \<le> ?mr" "?mr + 4 \<le> 0x7A8" using assms(3) by (simp_all add: mc_reg)
  define s2 where "s2 = s\<lparr>trace := trace s @ [Rd ?pr, Rd ?fr]\<rparr>"
  from commit_unfold_evid [OF assms(1,4,5)] obtain e where le: "length e = 4"
    and ev: "include \<longrightarrow> FIELD_GET 12 0 (e ! 3) = vid vlan"
    and c: "vlanmc_commit s cpu port vlan include idx entry vlan4k =
       (case regmap_bulk_write s2 ?mr e of
          (ret, s3) \<Rightarrow>
            if ret \<noteq> 0 then (ret, s3)
            else vlanmc_adjust s3 port vlan include idx (port_pvid s port)
                   (port_accept_frame s port))"
    unfolding s2_def by blast
  define s3 where
    "s3 = s2\<lparr>regs := (\<lambda>a. if ?mr \<le> a \<and> a < ?mr + 4 then e ! (a - ?mr) else regs s2 a),
              trace := trace s2 @ map (\<lambda>k. Wr (?mr + k) (e ! k)) [0..<4]\<rparr>"
  have f2: "faults s2 = []" using assms(1) by (simp add: s2_def)
  have bw: "regmap_bulk_write s2 ?mr e = (0, s3)"
    using bulk_write_ok [of s2 e ?mr] f2 mrb le by (simp add: s3_def)
  have c': "vlanmc_commit s cpu port vlan include idx entry vlan4k =
             vlanmc_adjust s3 port vlan include idx (port_pvid s port) (port_accept_frame s port)"
    unfolding c bw by simp
  have f3: "faults s3 = []" using f2 by (simp add: s3_def)
  have e3: "mc_evid s3 idx = FIELD_GET 12 0 (e ! 3)"
    by (simp add: mc_evid_def s3_def)
  have o3: "mc_evid s3 j = mc_evid s j" if "j \<noteq> idx" for j
  proof -
    define r where "r = RTL8365MB_VLAN_MC_CONF_REG j + 3"
    have nr: "\<not> (?mr \<le> r \<and> r < ?mr + 4)"
      using that unfolding r_def mc_reg by presburger
    have "regs s3 r = (if ?mr \<le> r \<and> r < ?mr + 4 then e ! (r - ?mr) else regs s2 r)"
      by (simp add: s3_def)
    then have "regs s3 r = regs s2 r" using nr by (simp only: if_False)
    then have "regs s3 r = regs s r" by (simp add: s2_def)
    then show ?thesis by (simp add: mc_evid_def r_def)
  qed
  have pp3: "port_pvid s3 port = port_pvid s port"
  proof -
    have "?pr < 0x728" using assms(2) by (simp add: pvid_reg)
    then show ?thesis using mrb by (simp add: port_pvid_def s3_def s2_def)
  qed
  have pf3: "port_accept_frame s3 port = port_accept_frame s port"
  proof -
    have "0x7A8 \<le> ?fr" by (simp add: frame_reg)
    then show ?thesis using mrb by (simp add: port_accept_frame_def s3_def s2_def)
  qed
  from adjust_ok [OF f3 assms(2), of idx "port_pvid s port" "port_accept_frame s port" _
       "include" vlan, OF _ _ _ refl refl]
  obtain s' where a:
    "vlanmc_adjust s3 port vlan include idx (port_pvid s port) (port_accept_frame s port) = (0, s')"
    "\<forall>r. r < 0x700 \<or> (0x706 \<le> r \<and> r < 0x7AA) \<longrightarrow> regs s' r = regs s3 r"
    using assms(3) pp3 pf3 by auto
  have sl: "mc_evid s' j = mc_evid s3 j" if "j < 32" for j
  proof -
    have "0x706 \<le> RTL8365MB_VLAN_MC_CONF_REG j + 3 \<and> RTL8365MB_VLAN_MC_CONF_REG j + 3 < 0x7AA"
      using that unfolding mc_reg by simp
    then show ?thesis using a(2) by (simp add: mc_evid_def)
  qed
  show ?thesis unfolding c' a(1) using sl assms(3) e3 o3 ev by simp
qed

lemma find_update:
  assumes "find P xs = Some i \<or> (find P xs = None \<and> i \<in> set xs)" "Q i"
    "\<forall>j \<in> set xs. j \<noteq> i \<longrightarrow> Q j = P j"
  shows "find Q xs = Some i"
  using assms by (induction xs) (auto split: if_splits)

lemma vlanmc_set_reduce:
  assumes "idle s" "vid vlan \<le> 0x1FFF" "target_slot s vlan = Some idx"
  shows "\<exists>s1 tr1 entry vlan4k. length entry = 4 \<and> idle s1 \<and> tables s1 = tables s
            \<and> (\<forall>r. r \<ge> 0x530 \<longrightarrow> regs s1 r = regs s r)
            \<and> trace s1 = trace s @ tr1 \<and> kinds tr1 = []
            \<and> rtl8365mb_vlanmc_set s cpu port vlan include =
                 vlanmc_commit s1 cpu port vlan include idx entry vlan4k
            \<and> 1 \<le> idx \<and> idx < 32"
proof -
  let ?v = "vid vlan"
  have fs: "faults s = []" using assms(1) by (simp add: idle_def)
  have v: "\<not> ?v > 0x1FFF" using assms(2) by (simp add: word_le_nat_alt word_less_nat_alt)
  show ?thesis
  proof (cases "slot_of s ?v")
    case (Some i)
    then have i: "i = idx" using assms(3) by (simp add: target_slot_def)
    have r: "1 \<le> idx \<and> idx < 32" using Some i find_slot_range by (simp add: slot_of_def)
    from scan_found [OF fs Some [unfolded slot_of_def i], of "- 1" "[0, 0, 0, 0]"]
    obtain fu s1 tr1 where a:
      "vlanmc_scan s ?v [1..<32] (- 1) [0, 0, 0, 0] = (0, idx, fu, mc_entry s idx, s1)"
      "regs s1 = regs s" "tables s1 = tables s" "faults s1 = []"
      "trace s1 = trace s @ tr1" "kinds tr1 = []"
      by blast
    have "idle s1" using a(2,4) assms(1) by (simp add: idle_def)
    moreover have "rtl8365mb_vlanmc_set s cpu port vlan include =
                 vlanmc_commit s1 cpu port vlan include idx (mc_entry s idx) vlan4k_zero"
      using a(1) v r by (simp add: rtl8365mb_vlanmc_set_def)
    moreover have "length (mc_entry s idx) = 4" by (simp add: mc_entry_def)
    ultimately show ?thesis using a r
      by (intro exI [of _ s1] exI [of _ tr1] exI [of _ "mc_entry s idx"] exI [of _ vlan4k_zero])
         simp
  next
    case None
    then have pv: "flags vlan AND 2 \<noteq> 0" and f: "free_slot s = Some idx"
      using assms(3) by (auto simp: target_slot_def split: if_splits)
    have r: "1 \<le> idx \<and> idx < 32" using f find_slot_range by (simp add: free_slot_def)
    from scan_not_found [OF fs None [unfolded slot_of_def], of "- 1" "[0, 0, 0, 0]"]
    obtain e s1 tr1 where a:
      "vlanmc_scan s ?v [1..<32] (- 1) [0, 0, 0, 0] = (0, 32, int idx, e, s1)"
      "regs s1 = regs s" "tables s1 = tables s" "faults s1 = []"
      "trace s1 = trace s @ tr1" "kinds tr1 = []"
      using f by (auto simp: free_slot_def)
    have i1: "idle s1" using a(2,4) assms(1) by (simp add: idle_def)
    show ?thesis
    proof (cases "?v \<le> 0xFFF")
      case True
      from cvlan_read_ok [OF i1 True, of "[0, 0, 0, 0]"] obtain s2 tr2 where b:
        "rtl8365mb_table_access s1 RTL8365MB_TABLE_CVLAN RTL8365MB_TABLE_READ ?v [0, 0, 0, 0] =
               (0, vlan4k_row s1 ?v @ [0], s2)"
        "idle s2" "tables s2 = tables s1" "\<forall>r. r \<ge> 0x530 \<longrightarrow> regs s2 r = regs s1 r"
        "trace s2 = trace s1 @ tr2" "kinds tr2 = []"
        by auto
      have "rtl8365mb_vlanmc_set s cpu port vlan include =
              vlanmc_commit s2 cpu port vlan include idx (vlan4k_row s1 ?v @ [0])
                (rtl8365mb_buf_vlan4k (vlan4k_row s1 ?v @ [0]) vlan4k_zero)"
        using a(1) b(1) v pv True
        by (simp add: rtl8365mb_vlanmc_set_def vlanmc_new_def)
      moreover have "length (vlan4k_row s1 ?v @ [0]) = 4" by simp
      ultimately show ?thesis using a b r
        by (intro exI [of _ s2] exI [of _ "tr1 @ tr2"] exI [of _ "vlan4k_row s1 ?v @ [0]"]
              exI [of _ "rtl8365mb_buf_vlan4k (vlan4k_row s1 ?v @ [0]) vlan4k_zero"]) simp
    next
      case False
      have "rtl8365mb_vlanmc_set s cpu port vlan include =
              vlanmc_commit s1 cpu port vlan include idx [0, 0, 0, 0] vlan4k_zero"
        using a(1) v pv False
        by (simp add: rtl8365mb_vlanmc_set_def vlanmc_new_def)
      then show ?thesis using a i1 r
        by (intro exI [of _ s1] exI [of _ tr1] exI [of _ "[0, 0, 0, 0]"] exI [of _ vlan4k_zero])
           simp
    qed
  qed
qed

lemma vlanmc_set_slot_mc:
  assumes "idle s" "port < 11" "vid vlan \<le> 0x1FFF" "target_slot s vlan = Some idx"
    and P: "P = (include \<and> flags vlan AND 2 \<noteq> 0 \<and> idx \<noteq> port_pvid s port)"
    and af': "af' = (if \<not> include
                     then (if port_accept_frame s port = 0 \<and> port_pvid s port = idx then 1
                           else port_accept_frame s port)
                     else if flags vlan AND 2 \<noteq> 0 \<and> port_accept_frame s port = 1 then 0
                     else port_accept_frame s port)"
  shows "\<exists>s' tr. rtl8365mb_vlanmc_set s cpu port vlan include = (0, s')
           \<and> idle s' \<and> tables s' = tables s
           \<and> port_pvid s' port = (if include \<and> flags vlan AND 2 \<noteq> 0 then idx else port_pvid s port)
           \<and> port_accept_frame s' port = af'
           \<and> (\<forall>q < 11. q \<noteq> port \<longrightarrow> port_pvid s' q = port_pvid s q
                                \<and> port_accept_frame s' q = port_accept_frame s q)
           \<and> trace s' = trace s @ tr
           \<and> kinds tr = replicate 4 Slot @ (if P then [PortReg] else [])
                          @ (if af' \<noteq> port_accept_frame s port then [PortReg] else [])
           \<and> (include \<longrightarrow> target_slot s' vlan = Some idx)"
proof -
  from vlanmc_set_reduce [OF assms(1,3,4), of cpu port "include"]
  obtain s1 tr1 entry vlan4k where b:
    "length entry = 4" "idle s1" "tables s1 = tables s"
    "\<forall>r. r \<ge> 0x530 \<longrightarrow> regs s1 r = regs s r"
    "trace s1 = trace s @ tr1" "kinds tr1 = []"
    "rtl8365mb_vlanmc_set s cpu port vlan include =
       vlanmc_commit s1 cpu port vlan include idx entry vlan4k" "1 \<le> idx" "idx < 32"
    by blast
  have f1: "faults s1 = []" using b(2) by (simp add: idle_def)
  have pp: "port_pvid s1 q = port_pvid s q" for q using b(4) by (rule port_pvid_regs)
  have pf: "port_accept_frame s1 q = port_accept_frame s q" for q
    using b(4) by (rule port_accept_frame_regs)
  have me: "mc_evid s1 j = mc_evid s j" for j using b(4) by (rule mc_evid_regs)
  have P1: "P = (include \<and> flags vlan AND 2 \<noteq> 0 \<and> idx \<noteq> port_pvid s1 port)"
    using P by (simp add: pp)
  have af1: "af' = (if \<not> include
                     then (if port_accept_frame s1 port = 0 \<and> port_pvid s1 port = idx then 1
                           else port_accept_frame s1 port)
                     else if flags vlan AND 2 \<noteq> 0 \<and> port_accept_frame s1 port = 1 then 0
                     else port_accept_frame s1 port)"
    using af' by (simp add: pp pf)
  from commit_ok [OF f1 assms(2) b(9) b(1) P1 af1, of cpu vlan4k]
  obtain s' tr where c0:
    "vlanmc_commit s1 cpu port vlan include idx entry vlan4k = (0, s')"
    "faults s' = []" "tables s' = tables s1"
    "\<forall>r. r < 0x700 \<longrightarrow> regs s' r = regs s1 r"
    "port_pvid s' port = (if include \<and> flags vlan AND 2 \<noteq> 0 then idx else port_pvid s1 port)"
    "port_accept_frame s' port = af'"
    "\<forall>q < 11. q \<noteq> port \<longrightarrow> port_pvid s' q = port_pvid s1 q
                                \<and> port_accept_frame s' q = port_accept_frame s1 q"
    "trace s' = trace s1 @ tr"
    "kinds tr = replicate 4 Slot @ (if P then [PortReg] else [])
                  @ (if af' \<noteq> port_accept_frame s1 port then [PortReg] else [])"
    by blast
  note c = c0 [unfolded pp pf]
  have i: "idle s'" using c(2,4) b(2) by (simp add: idle_def)
  note cs = commit_slots [OF f1 assms(2) b(9) b(1) assms(3), of "include" cpu vlan4k,
      unfolded c(1) snd_conv me]
  have sl: "include \<longrightarrow> mc_evid s' idx = vid vlan"
       "\<forall>j < 32. j \<noteq> idx \<longrightarrow> mc_evid s' j = mc_evid s j"
    using cs by blast+
  have ts: "target_slot s' vlan = Some idx" if "include"
  proof -
    have d: "find (\<lambda>i. mc_evid s i = vid vlan) [1..<32] = Some idx
             \<or> (find (\<lambda>i. mc_evid s i = vid vlan) [1..<32] = None \<and> idx \<in> set [1..<32])"
      using assms(4) b(8,9) by (auto simp: target_slot_def slot_of_def split: option.splits)
    have "find (\<lambda>i. mc_evid s' i = vid vlan) [1..<32] = Some idx"
      using d sl that by (intro find_update [where P = "\<lambda>i. mc_evid s i = vid vlan"]) auto
    then show ?thesis by (simp add: target_slot_def slot_of_def)
  qed
  show ?thesis
    using b(7) c(1,3,5,6,7,8,9) b(3,5,6) i ts
    by (intro exI [of _ s'] exI [of _ "tr1 @ tr"]) simp
qed

lemma vlan4k_set_einval:
  "vid vlan > 0xFFF \<Longrightarrow> rtl8365mb_vlan4k_set s port vlan include = (- EINVAL, s)"
  by (simp add: rtl8365mb_vlan4k_set_def)

lemma vlanmc_set_einval:
  "vid vlan > 0x1FFF \<Longrightarrow> rtl8365mb_vlanmc_set s cpu port vlan include = (- EINVAL, s)"
  by (simp add: rtl8365mb_vlanmc_set_def)

lemma add_all_cases:
  assumes "idle s" "port < 11"
  shows "\<exists>s'. rtl8365mb_vlan_add s cpu port vlan
                 = (if vid vlan \<le> 0xFFF \<and> \<not> (flags vlan AND 2 \<noteq> 0 \<and> target_slot s vlan = None)
                    then 0 else - EINVAL, s')
           \<and> port_accept_frame s' port =
               (if vid vlan \<le> 0xFFF
                then (if flags vlan AND 2 \<noteq> 0 \<and> port_accept_frame s port = 1
                         \<and> target_slot s vlan \<noteq> None then 0
                      else port_accept_frame s port)
                else if vid vlan \<le> 0x1FFF \<and> target_slot s vlan \<noteq> None
                then (if flags vlan AND 2 \<noteq> 0
                      then (if port_accept_frame s port = 0 \<or> port_accept_frame s port = 1
                            then 1 else port_accept_frame s port)
                      else (if port_accept_frame s port = 0
                               \<and> target_slot s vlan = Some (port_pvid s port)
                            then 1 else port_accept_frame s port))
                else port_accept_frame s port)
           \<and> (\<forall>q < 11. q \<noteq> port \<longrightarrow> port_accept_frame s' q = port_accept_frame s q)"
proof (cases "vid vlan \<le> 0xFFF")
  case True
  from add_result_cases [OF assms True, of cpu] obtain s' where
    "rtl8365mb_vlan_add s cpu port vlan
       = (if flags vlan AND 2 \<noteq> 0 \<and> target_slot s vlan = None then - EINVAL else 0, s')"
    "port_accept_frame s' port =
               (if flags vlan AND 2 \<noteq> 0 \<and> port_accept_frame s port = 1
                   \<and> target_slot s vlan \<noteq> None then 0
                else port_accept_frame s port)"
    "\<forall>q < 11. q \<noteq> port \<longrightarrow> port_accept_frame s' q = port_accept_frame s q"
    by blast
  then show ?thesis using True by (intro exI [of _ s']) simp
next
  case False
  note nb = False
  then have big: "vid vlan > 0xFFF" by simp
  show ?thesis
  proof (cases "vid vlan \<le> 0x1FFF")
    case False
    then have "rtl8365mb_vlan_add s cpu port vlan = (- EINVAL, s)"
      by (simp add: rtl8365mb_vlan_add_def vlanmc_set_einval EINVAL_def)
    then show ?thesis using False nb by (intro exI [of _ s]) simp
  next
    case True
    note mc = True
    show ?thesis
    proof (cases "target_slot s vlan")
      case None
      have fs: "faults s = []" using assms(1) by (simp add: idle_def)
      have so: "slot_of s (vid vlan) = None"
        using None by (simp add: target_slot_def split: option.splits)
      show ?thesis
      proof (cases "flags vlan AND 2 = 0")
        case False
        have fr: "free_slot s = None" using None False so by (simp add: target_slot_def)
        from vlan_add_full [OF fs mc False so fr, of cpu port] obtain s' where
          a: "rtl8365mb_vlan_add s cpu port vlan = (- EINVAL, s')" "regs s' = regs s"
          by blast
        have "port_accept_frame s' q = port_accept_frame s q" for q
          using a(2) by (rule port_regs_eq(2))
        then show ?thesis using a(1) None nb by (intro exI [of _ s']) simp
      next
        case True
        from vlanmc_set_none [OF fs mc so True, of cpu port True] obtain s1 where a:
          "rtl8365mb_vlanmc_set s cpu port vlan True = (0, s1)" "regs s1 = regs s"
          "faults s1 = []"
          by blast
        have so1: "slot_of s1 (vid vlan) = None" using so by (simp add: slot_of_def mc_evid_def a(2))
        from vlanmc_set_none [OF a(3) mc so1 True, of cpu port False] obtain s2 where b:
          "rtl8365mb_vlanmc_set s1 cpu port vlan False = (0, s2)" "regs s2 = regs s1"
          by blast
        have r: "rtl8365mb_vlan_add s cpu port vlan = (- EINVAL, s2)"
          using a(1) b(1) by (simp add: rtl8365mb_vlan_add_def vlan4k_set_einval [OF big] EINVAL_def)
        have "port_accept_frame s2 q = port_accept_frame s q" for q
          using b(2) a(2) by (simp add: port_accept_frame_def)
        then show ?thesis using r None nb by (intro exI [of _ s2]) simp
      qed
    next
      case (Some idx)
      define pv1 where "pv1 = (if flags vlan AND 2 \<noteq> 0 then idx else port_pvid s port)"
      define af1 where "af1 = (if flags vlan AND 2 \<noteq> 0 \<and> port_accept_frame s port = 1 then 0
                               else port_accept_frame s port)"
      have e1: "af1 = (if \<not> True
                     then (if port_accept_frame s port = 0 \<and> port_pvid s port = idx then 1
                           else port_accept_frame s port)
                     else if flags vlan AND 2 \<noteq> 0 \<and> port_accept_frame s port = 1 then 0
                     else port_accept_frame s port)"
        by (simp add: af1_def)
      from vlanmc_set_slot_mc [OF assms mc Some refl e1] obtain s1 where a:
        "rtl8365mb_vlanmc_set s cpu port vlan True = (0, s1)" "idle s1"
        "port_pvid s1 port = pv1" "port_accept_frame s1 port = af1"
        "\<forall>q < 11. q \<noteq> port \<longrightarrow> port_pvid s1 q = port_pvid s q
                                \<and> port_accept_frame s1 q = port_accept_frame s q"
        "target_slot s1 vlan = Some idx"
        unfolding pv1_def af1_def by auto
      define af2 where "af2 = (if af1 = 0 \<and> pv1 = idx then 1 else af1)"
      have e2: "af2 = (if \<not> False
                     then (if port_accept_frame s1 port = 0 \<and> port_pvid s1 port = idx then 1
                           else port_accept_frame s1 port)
                     else if flags vlan AND 2 \<noteq> 0 \<and> port_accept_frame s1 port = 1 then 0
                     else port_accept_frame s1 port)"
        by (simp add: af2_def a(3,4))
      from vlanmc_set_slot_mc [OF a(2) assms(2) mc a(6) refl e2] obtain s2 where b:
        "rtl8365mb_vlanmc_set s1 cpu port vlan False = (0, s2)"
        "port_accept_frame s2 port = af2"
        "\<forall>q < 11. q \<noteq> port \<longrightarrow> port_pvid s2 q = port_pvid s1 q
                                \<and> port_accept_frame s2 q = port_accept_frame s1 q"
        by auto
      have r: "rtl8365mb_vlan_add s cpu port vlan = (- EINVAL, s2)"
        using a(1) b(1) by (simp add: rtl8365mb_vlan_add_def vlan4k_set_einval [OF big] EINVAL_def)
      have o: "\<forall>q < 11. q \<noteq> port \<longrightarrow> port_accept_frame s2 q = port_accept_frame s q"
        using a(5) b(3) by simp
      have f: "af2 = (if flags vlan AND 2 \<noteq> 0
                      then (if port_accept_frame s port = 0 \<or> port_accept_frame s port = 1
                            then 1 else port_accept_frame s port)
                      else (if port_accept_frame s port = 0 \<and> idx = port_pvid s port
                            then 1 else port_accept_frame s port))"
        by (auto simp: af2_def af1_def pv1_def)
      show ?thesis using r b(2) o f Some nb mc by (intro exI [of _ s2]) (simp add: eq_commute [of idx])
    qed
  qed
qed

lemma del_all_cases:
  assumes "idle s" "port < 11"
  shows "\<exists>s'. rtl8365mb_vlan_del s cpu port vlan
                 = (if vid vlan \<le> 0xFFF \<and> \<not> (flags vlan AND 2 \<noteq> 0 \<and> target_slot s vlan = None)
                    then 0 else 1, s')
           \<and> port_accept_frame s' port =
               (if vid vlan \<le> 0x1FFF \<and> port_accept_frame s port = 0
                   \<and> target_slot s vlan = Some (port_pvid s port)
                then 1 else port_accept_frame s port)
           \<and> (\<forall>q < 11. q \<noteq> port \<longrightarrow> port_accept_frame s' q = port_accept_frame s q)"
proof (cases "vid vlan \<le> 0xFFF")
  case True
  then have mc: "vid vlan \<le> 0x1FFF" by (simp add: word_le_nat_alt)
  from del_result_cases [OF assms True, of cpu] obtain s' where
    "rtl8365mb_vlan_del s cpu port vlan
       = (if flags vlan AND 2 \<noteq> 0 \<and> target_slot s vlan = None then 1 else 0, s')"
    "port_accept_frame s' port =
               (if port_accept_frame s port = 0 \<and> target_slot s vlan = Some (port_pvid s port)
                then 1 else port_accept_frame s port)"
    "\<forall>q < 11. q \<noteq> port \<longrightarrow> port_accept_frame s' q = port_accept_frame s q"
    by blast
  then show ?thesis using True mc by (intro exI [of _ s']) simp
next
  case False
  note nb = False
  then have big: "vid vlan > 0xFFF" by simp
  have e0: "EINVAL \<noteq> 0" by (simp add: EINVAL_def)
  show ?thesis
  proof (cases "vid vlan \<le> 0x1FFF")
    case False
    then have "rtl8365mb_vlan_del s cpu port vlan = (1, s)"
      by (simp add: rtl8365mb_vlan_del_def vlanmc_set_einval vlan4k_set_einval [OF big] e0)
    then show ?thesis using False nb by (intro exI [of _ s]) simp
  next
    case True
    note mc = True
    have fs: "faults s = []" using assms(1) by (simp add: idle_def)
    show ?thesis
    proof (cases "target_slot s vlan")
      case None
      have so: "slot_of s (vid vlan) = None"
        using None by (simp add: target_slot_def split: option.splits)
      have "\<exists>s' r. rtl8365mb_vlanmc_set s cpu port vlan False = (r, s') \<and> regs s' = regs s"
      proof (cases "flags vlan AND 2 = 0")
        case True
        from vlanmc_set_none [OF fs mc so True, of cpu port False] show ?thesis by blast
      next
        case False
        have fr: "free_slot s = None" using None False so by (simp add: target_slot_def)
        from vlanmc_set_full [OF fs mc so False fr, of cpu port False] show ?thesis by blast
      qed
      then obtain s' r where a: "rtl8365mb_vlanmc_set s cpu port vlan False = (r, s')"
        "regs s' = regs s"
        by blast
      have r: "rtl8365mb_vlan_del s cpu port vlan = (1, s')"
        using a(1) by (simp add: rtl8365mb_vlan_del_def vlan4k_set_einval [OF big] e0)
      have "port_accept_frame s' q = port_accept_frame s q" for q
        using a(2) by (rule port_regs_eq(2))
      then show ?thesis using r None nb by (intro exI [of _ s']) simp
    next
      case (Some idx)
      define af2 where "af2 = (if port_accept_frame s port = 0 \<and> port_pvid s port = idx then 1
                               else port_accept_frame s port)"
      have e2: "af2 = (if \<not> False
                     then (if port_accept_frame s port = 0 \<and> port_pvid s port = idx then 1
                           else port_accept_frame s port)
                     else if flags vlan AND 2 \<noteq> 0 \<and> port_accept_frame s port = 1 then 0
                     else port_accept_frame s port)"
        by (simp add: af2_def)
      from vlanmc_set_slot_mc [OF assms mc Some refl e2] obtain s2 where b:
        "rtl8365mb_vlanmc_set s cpu port vlan False = (0, s2)"
        "port_accept_frame s2 port = af2"
        "\<forall>q < 11. q \<noteq> port \<longrightarrow> port_pvid s2 q = port_pvid s q
                                \<and> port_accept_frame s2 q = port_accept_frame s q"
        by auto
      have r: "rtl8365mb_vlan_del s cpu port vlan = (1, s2)"
        using b(1) by (simp add: rtl8365mb_vlan_del_def vlan4k_set_einval [OF big] e0)
      show ?thesis using r b(2,3) Some nb mc
        by (intro exI [of _ s2]) (simp add: af2_def eq_commute [of idx])
    qed
  qed
qed




section \<open>An add when every context slot is taken\<close>

lemma full_chip_evid:
  "\<forall>i \<in> {1..<32}. mc_evid full_chip i \<noteq> 0 \<and> mc_evid full_chip i \<noteq> 10"
  unfolding atLeastLessThan_upt
  by (simp add: upt_conv_Cons mc_evid_def mc_reg full_chip_def chip0_def FIELD_GET_def
        GENMASK_def mask_eq_exp_minus_1)

lemma no_slot:
  assumes "\<forall>i \<in> {1..<32}. mc_evid s i \<noteq> 0 \<and> mc_evid s i \<noteq> v"
  shows "slot_of s v = None" "free_slot s = None"
  using assms by (simp_all add: slot_of_def free_slot_def find_None_iff)

text \<open>
  Claim C6. An add with the PVID flag, on a chip whose bus does not fail, for a VLAN ID
  that is in range for a context slot, when each of the slots 1 to 31 holds a non-zero
  VLAN ID other than the requested one: the add fails with \<open>-EINVAL\<close>, no by-ID row and
  no register is changed, and no write that changes VLAN state is made.
\<close>

theorem slot_pool_exhausted:
  assumes "faults s = []" "vid vlan \<le> RTL8365MB_MAX_MC_VID"
    and "flags vlan AND BRIDGE_VLAN_INFO_PVID \<noteq> 0"
    and "\<forall>i \<in> {1..<32}. mc_evid s i \<noteq> 0 \<and> mc_evid s i \<noteq> vid vlan"
  shows "fst (rtl8365mb_vlan_add s cpu port vlan) = - EINVAL
    \<and> tables (snd (rtl8365mb_vlan_add s cpu port vlan)) = tables s
    \<and> regs (snd (rtl8365mb_vlan_add s cpu port vlan)) = regs s
    \<and> kinds (new_trace s (snd (rtl8365mb_vlan_add s cpu port vlan))) = []"
proof -
  from vlan_add_full [OF assms(1,2,3) no_slot [OF assms(4)], of cpu port]
  obtain s' where "rtl8365mb_vlan_add s cpu port vlan = (- EINVAL, s')"
    "regs s' = regs s" "tables s' = tables s" "kinds (new_trace s s') = []"
    by blast
  then show ?thesis by simp
qed

theorem slot_pool_exhausted_witness:
  "mc_evid full_chip 1 \<noteq> 10 \<and> mc_evid full_chip 31 \<noteq> 0
   \<and> fst (rtl8365mb_vlan_add full_chip 0x100 2 \<lparr>vid = 10, flags = 2\<rparr>) = - 22
   \<and> tables (snd (rtl8365mb_vlan_add full_chip 0x100 2 \<lparr>vid = 10, flags = 2\<rparr>))
       = tables full_chip
   \<and> regs (snd (rtl8365mb_vlan_add full_chip 0x100 2 \<lparr>vid = 10, flags = 2\<rparr>))
       = regs full_chip"
  using slot_pool_exhausted [of full_chip "\<lparr>vid = 10, flags = 2\<rparr>" "0x100" 2] full_chip_evid
  by (simp add: full_chip_def chip0_def EINVAL_def)

text \<open>
  On the chip whose slots are all taken, the add returns the code that the driver returns
  for an invalid argument, such as a VLAN ID above the range of a context slot.
\<close>

theorem slot_pool_exhausted_counterexample:
  "fst (rtl8365mb_vlan_add full_chip 0x100 2 \<lparr>vid = 10, flags = 2\<rparr>) = - EINVAL
   \<and> fst (rtl8365mb_vlan_add full_chip 0x100 2 \<lparr>vid = 10, flags = 2\<rparr>)
       = fst (rtl8365mb_vlan_add full_chip 0x100 2 \<lparr>vid = 0x2000, flags = 2\<rparr>)"
proof -
  have fs: "faults full_chip = []" by (simp add: full_chip_def chip0_def)
  have so: "slot_of full_chip (vid \<lparr>vid = 10, flags = 2\<rparr>) = None" "free_slot full_chip = None"
    using no_slot [OF full_chip_evid] by simp_all
  from vlan_add_full [OF fs _ _ so, of "0x100" 2]
  have 1: "fst (rtl8365mb_vlan_add full_chip 0x100 2 \<lparr>vid = 10, flags = 2\<rparr>) = - EINVAL"
    by auto
  have 2: "fst (rtl8365mb_vlan_add full_chip 0x100 2 \<lparr>vid = 0x2000, flags = 2\<rparr>) = - EINVAL"
    by (simp add: rtl8365mb_vlan_add_def rtl8365mb_vlanmc_set_def EINVAL_def)
  show ?thesis using 1 2 by simp
qed

section \<open>The writes of the VLAN operations under any fault script\<close>

lemma wrote_iff: "wrote s s' ks \<longleftrightarrow> (\<exists>tr. trace s' = trace s @ tr \<and> kinds tr = ks)"
proof
  assume w: "wrote s s' ks"
  then have "trace s' = trace s @ new_trace s s'"
    unfolding wrote_def new_trace_def by (metis append_take_drop_id)
  with w show "\<exists>tr. trace s' = trace s @ tr \<and> kinds tr = ks"
    unfolding wrote_def by blast
next
  assume "\<exists>tr. trace s' = trace s @ tr \<and> kinds tr = ks"
  then show "wrote s s' ks" by (auto simp: wrote_def new_trace_def)
qed

lemma wrote_refl: "wrote s s []"
  by (simp add: wrote_iff)

lemma wrote_trans: "wrote s s1 a \<Longrightarrow> wrote s1 s2 b \<Longrightarrow> wrote s s2 (a @ b)"
  by (auto simp: wrote_iff)

lemma wrote_nil_left: "wrote s s1 [] \<Longrightarrow> wrote s1 s2 b \<Longrightarrow> wrote s s2 b"
  using wrote_trans [of s s1 "[]" s2 b] by simp

lemma wrote_nil_right: "wrote s s1 a \<Longrightarrow> wrote s1 s2 [] \<Longrightarrow> wrote s s2 a"
  using wrote_trans [of s s1 a s2 "[]"] by simp

lemma wrote_kinds: "wrote s s' ks \<Longrightarrow> kinds (new_trace s s') = ks"
  by (simp add: wrote_def)

lemma next_fault_trace: "next_fault s = (e, s1) \<Longrightarrow> trace s1 = trace s"
  by (auto simp: next_fault_def split: list.splits)

lemma next_fault_regs: "next_fault s = (e, s1) \<Longrightarrow> regs s1 = regs s"
  by (auto simp: next_fault_def split: list.splits)

lemma read_wrote: "regmap_read s r = (ret, v, s') \<Longrightarrow> wrote s s' []"
  by (auto simp: regmap_read_def wrote_iff split: prod.splits if_splits
           dest: next_fault_trace)

lemma read_regs: "regmap_read s r = (ret, v, s') \<Longrightarrow> regs s' = regs s"
  by (auto simp: regmap_read_def split: prod.splits if_splits dest: next_fault_regs)

lemma read_value: "regmap_read s r = (0, v, s') \<Longrightarrow> v = ucast (regs s r)"
  by (auto simp: regmap_read_def split: prod.splits if_splits dest: next_fault_regs)

lemma write_wrote:
  "regmap_write s r v = (ret, s')
     \<Longrightarrow> wrote s s' (if ret = 0 then kinds [Wr r (ucast v)] else [])"
  by (auto simp: regmap_write_def wrote_iff Let_def split: prod.splits if_splits
           dest: next_fault_trace)

lemma update_bits_wrote:
  "regmap_update_bits s r m v = (ret, s')
     \<Longrightarrow> wrote s s' (if ret = 0
           then kinds [Wr r (ucast ((ucast (regs s r) AND NOT m) OR (v AND m)))] else [])"
proof -
  assume a: "regmap_update_bits s r m v = (ret, s')"
  obtain r1 orig s1 where c1: "regmap_read s r = (r1, orig, s1)"
    using prod_cases3 by blast
  note w1 = read_wrote [OF c1]
  show ?thesis
  proof (cases "r1 = 0")
    case False
    with a c1 have "ret = r1" "s' = s1" by (simp_all add: regmap_update_bits_def)
    with False w1 show ?thesis by simp
  next
    case True
    with c1 have o: "orig = ucast (regs s r)" using read_value by blast
    from a c1 True have "regmap_write s1 r ((orig AND NOT m) OR (v AND m)) = (ret, s')"
      by (simp add: regmap_update_bits_def)
    from write_wrote [OF this] w1 show ?thesis unfolding o
      by (rule wrote_nil_left [rotated])
  qed
qed

lemma bulk_read_wrote: "regmap_bulk_read s r n = (ret, buf, s') \<Longrightarrow> wrote s s' []"
proof (induction n arbitrary: s r ret buf s')
  case 0
  then show ?case by (simp add: wrote_refl)
next
  case (Suc n)
  obtain r1 v s1 where c1: "regmap_read s r = (r1, v, s1)" using prod_cases3 by blast
  note w1 = read_wrote [OF c1]
  show ?case
  proof (cases "r1 = 0")
    case False
    with Suc.prems c1 have "s' = s1" by simp
    with w1 show ?thesis by simp
  next
    case True
    obtain r2 vs s2 where c2: "regmap_bulk_read s1 (r + 1) n = (r2, vs, s2)"
      using prod_cases3 by blast
    with Suc.prems c1 True have "s' = s2" by simp
    with Suc.IH [OF c2] w1 show ?thesis using wrote_nil_left by blast
  qed
qed

lemma bulk_read_length: "regmap_bulk_read s r n = (0, buf, s') \<Longrightarrow> length buf = n"
proof (induction n arbitrary: s r buf s')
  case 0
  then show ?case by simp
next
  case (Suc n)
  obtain r1 v s1 where c1: "regmap_read s r = (r1, v, s1)" using prod_cases3 by blast
  obtain r2 vs s2 where c2: "regmap_bulk_read s1 (r + 1) n = (r2, vs, s2)"
    using prod_cases3 by blast
  from Suc.prems c1 c2 have "r1 = 0" "r2 = 0" "buf = ucast v # vs"
    by (auto split: if_splits)
  with Suc.IH [of s1 "r + 1" vs s2] c2 show ?case by simp
qed

lemma bulk_write_wrote_other:
  "regmap_bulk_write s r vs = (ret, s') \<Longrightarrow> r + length vs \<le> 0x700 \<Longrightarrow> 0x500 < r
     \<Longrightarrow> wrote s s' []"
proof (induction vs arbitrary: s r ret s')
  case Nil
  then show ?case by (simp add: wrote_refl)
next
  case (Cons v vs)
  obtain r1 s1 where c1: "regmap_write s r (ucast v) = (r1, s1)" by (cases "regmap_write s r (ucast v)")
  have k: "kind_of (Wr r w) = None" for w using Cons.prems(2,3) by (simp add: kind_of_other)
  from write_wrote [OF c1] have w1: "wrote s s1 []"
    by (cases "r1 = 0") (simp_all add: kinds_Cons k)
  show ?case
  proof (cases "r1 = 0")
    case False
    with Cons.prems c1 have "s' = s1" by simp
    with w1 show ?thesis by simp
  next
    case True
    with Cons.prems c1 have c2: "regmap_bulk_write s1 (r + 1) vs = (ret, s')" by simp
    from Cons.IH [OF c2] Cons.prems(2,3) have "wrote s1 s' []" by simp
    with w1 show ?thesis using wrote_nil_left by blast
  qed
qed

lemma bulk_write_wrote_slot:
  "regmap_bulk_write s r vs = (ret, s') \<Longrightarrow> 0x728 \<le> r \<Longrightarrow> r + length vs \<le> 0x7A8
     \<Longrightarrow> \<exists>n. wrote s s' (replicate n Slot)"
proof (induction vs arbitrary: s r ret s')
  case Nil
  then have "wrote s s' (replicate 0 Slot)" by (simp add: wrote_refl)
  then show ?case by blast
next
  case (Cons v vs)
  obtain r1 s1 where c1: "regmap_write s r (ucast v) = (r1, s1)" by (cases "regmap_write s r (ucast v)")
  have k: "kind_of (Wr r w) = Some Slot" for w using Cons.prems(2,3) by (simp add: kind_of_def)
  from write_wrote [OF c1] have w1: "wrote s s1 (if r1 = 0 then [Slot] else [])"
    by (cases "r1 = 0") (simp_all add: kinds_Cons k)
  show ?case
  proof (cases "r1 = 0")
    case False
    with Cons.prems c1 have "s' = s1" by simp
    with w1 False have "wrote s s' (replicate 0 Slot)" by simp
    then show ?thesis by blast
  next
    case True
    with Cons.prems c1 have c2: "regmap_bulk_write s1 (r + 1) vs = (ret, s')" by simp
    from Cons.IH [OF c2] Cons.prems(2,3) obtain n where "wrote s1 s' (replicate n Slot)"
      by auto
    with w1 True have "wrote s s' (replicate (Suc n) Slot)"
      using wrote_trans [of s s1 "[Slot]" s' "replicate n Slot"] by simp
    then show ?thesis by blast
  qed
qed

lemma poll_wrote: "poll_reg n s r c = (ret, v, s') \<Longrightarrow> wrote s s' []"
proof (induction n arbitrary: s ret v s')
  case 0
  obtain r1 v1 s1 where c1: "regmap_read s r = (r1, v1, s1)" using prod_cases3 by blast
  with 0 have "s' = s1" by (auto split: if_splits)
  with read_wrote [OF c1] show ?case by simp
next
  case (Suc n)
  obtain r1 v1 s1 where c1: "regmap_read s r = (r1, v1, s1)" using prod_cases3 by blast
  note w1 = read_wrote [OF c1]
  show ?case
  proof (cases "r1 \<noteq> 0 \<or> c v1")
    case True
    with Suc.prems c1 have "s' = s1" by (auto split: if_splits)
    with w1 show ?thesis by simp
  next
    case False
    with Suc.prems c1 have "poll_reg n s1 r c = (ret, v, s')" by simp
    from Suc.IH [OF this] w1 show ?thesis using wrote_nil_left by blast
  qed
qed

lemma poll_timeout_wrote: "regmap_read_poll_timeout s r c = (ret, v, s') \<Longrightarrow> wrote s s' []"
  unfolding regmap_read_poll_timeout_def by (rule poll_wrote)

lemma tail_wrote:
  assumes a: "table_access_tail n s 3 op i val = (ret, val', s')"
  shows "wrote s s' (if ret = 0 \<and> op = RTL8365MB_TABLE_WRITE then [ByID] else [])"
proof -
  obtain r1 s1 where c1: "regmap_write s RTL8365MB_TABLE_ACCESS_ADDR_REG
      (FIELD_PREP 13 0 (ucast i)) = (r1, s1)" by (rule prod.exhaust)
  have "kind_of (Wr RTL8365MB_TABLE_ACCESS_ADDR_REG w) = None" for w
    by (simp add: kind_of_other)
  with write_wrote [OF c1] have w1: "wrote s s1 []"
    by (cases "r1 = 0") (simp_all add: kinds_Cons)
  show ?thesis
  proof (cases "r1 = 0")
    case False
    with a c1 have "ret = r1" "s' = s1" by (simp_all add: table_access_tail_def)
    with False w1 show ?thesis by simp
  next
    case r1: True
    obtain r2 s2 where c2: "regmap_update_bits s1 RTL8365MB_TABLE_CONTROL_REG
        (GENMASK 3 3 OR GENMASK 2 0)
        (FIELD_PREP 3 3 (table_op_val op) OR FIELD_PREP 2 0 (of_nat 3)) = (r2, s2)"
      by (rule prod.exhaust)
    have k: "kinds [Wr RTL8365MB_TABLE_CONTROL_REG (table_cmd old op 3)]
               = (if op = RTL8365MB_TABLE_WRITE then [ByID] else [])" for old
      using kind_of_ctrl [of 3 old op] by (simp add: kinds_Cons)
    from update_bits_wrote [OF c2]
    have "wrote s1 s2 (if r2 = 0 \<and> op = RTL8365MB_TABLE_WRITE then [ByID] else [])"
      using k [of "regs s1 RTL8365MB_TABLE_CONTROL_REG"]
      by (cases "r2 = 0") (simp_all add: table_cmd_def)
    with w1 have w2: "wrote s s2 (if r2 = 0 \<and> op = RTL8365MB_TABLE_WRITE then [ByID] else [])"
      by (rule wrote_nil_left)
    show ?thesis
    proof (cases "r2 \<noteq> 0 \<or> op = RTL8365MB_TABLE_WRITE")
      case True
      with a c1 c2 r1 have "ret = r2" "s' = s2"
        by (auto simp: table_access_tail_def split: if_splits)
      with w2 show ?thesis by simp
    next
      case False
      then have r2: "r2 = 0" and op: "op = RTL8365MB_TABLE_READ" by (simp, cases op) auto
      from w2 r2 op have w2': "wrote s s2 []" by simp
      obtain r3 l3 s3 where c3: "regmap_read s2 RTL8365MB_TABLE_LUT_REG = (r3, l3, s3)"
        using prod_cases3 by blast
      obtain r4 l4 s4 where c4: "regmap_read_poll_timeout s3 RTL8365MB_TABLE_LUT_REG
          (\<lambda>lut. FIELD_PREP 13 13 lut = 0) = (r4, l4, s4)" using prod_cases3 by blast
      obtain r5 buf s5 where c5: "regmap_bulk_read s4 RTL8365MB_TABLE_READ_DATA_REG_BASE n
          = (r5, buf, s5)" using prod_cases3 by blast
      have w4: "wrote s s4 []"
        using w2' read_wrote [OF c3] poll_timeout_wrote [OF c4] wrote_nil_left by blast
      have w5: "wrote s s5 []" using w4 bulk_read_wrote [OF c5] wrote_nil_left by blast
      from a c1 c2 c3 c4 c5 r1 r2 op have "s' = s4 \<or> s' = s5"
        by (auto simp: table_access_tail_def Let_def split: if_splits)
      with w4 w5 op show ?thesis by auto
    qed
  qed
qed

lemma tail_read_length:
  assumes a: "table_access_tail n s t RTL8365MB_TABLE_READ i val = (0, val', s')"
    and n: "n \<noteq> 10" "n \<le> length val"
  shows "length val' = length val"
proof -
  obtain r1 s1 where c1: "regmap_write s RTL8365MB_TABLE_ACCESS_ADDR_REG
      (FIELD_PREP 13 0 (ucast i)) = (r1, s1)" by (rule prod.exhaust)
  obtain r2 s2 where c2: "regmap_update_bits s1 RTL8365MB_TABLE_CONTROL_REG
      (GENMASK 3 3 OR GENMASK 2 0)
      (FIELD_PREP 3 3 (table_op_val RTL8365MB_TABLE_READ) OR FIELD_PREP 2 0 (of_nat t))
        = (r2, s2)" by (rule prod.exhaust)
  obtain r3 l3 s3 where c3: "regmap_read s2 RTL8365MB_TABLE_LUT_REG = (r3, l3, s3)"
    using prod_cases3 by blast
  obtain r4 l4 s4 where c4: "regmap_read_poll_timeout s3 RTL8365MB_TABLE_LUT_REG
      (\<lambda>lut. FIELD_PREP 13 13 lut = 0) = (r4, l4, s4)" using prod_cases3 by blast
  obtain r5 buf s5 where c5: "regmap_bulk_read s4 RTL8365MB_TABLE_READ_DATA_REG_BASE n
      = (r5, buf, s5)" using prod_cases3 by blast
  from a c1 c2 c3 c4 c5 n have "r5 = 0 \<and> val' = buf @ drop n val"
    by (auto simp: table_access_tail_def Let_def split: if_splits)
  with bulk_read_length [of s4 _ n buf s5] c5 n show ?thesis by simp
qed

lemma table_read_wrote:
  assumes a: "rtl8365mb_table_access s RTL8365MB_TABLE_CVLAN RTL8365MB_TABLE_READ i val
                = (ret, val', s')"
  shows "wrote s s' []"
proof -
  obtain r1 l1 s1 where c1: "regmap_read_poll_timeout s RTL8365MB_TABLE_LUT_REG
      (\<lambda>lut. FIELD_PREP 13 13 lut = 0) = (r1, l1, s1)" using prod_cases3 by blast
  note w1 = poll_timeout_wrote [OF c1]
  obtain r2 v2 s2 where c2: "table_access_tail 3 s1 3 RTL8365MB_TABLE_READ i val = (r2, v2, s2)"
    using prod_cases3 by blast
  from tail_wrote [OF c2] have "wrote s1 s2 []" by simp
  with w1 have w2: "wrote s s2 []" by (rule wrote_nil_left)
  from a c1 c2 have "s' = s \<or> s' = s1 \<or> s' = s2"
    by (auto simp: rtl8365mb_table_access_def rtl8365mb_table_access_sz_def Let_def
          RTL8365MB_TABLE_CVLAN_def rtl8365mb_table_entry_size_def split: if_splits)
  with w1 w2 wrote_refl [of s] show ?thesis by auto
qed

lemma table_read_length:
  assumes a: "rtl8365mb_table_access s RTL8365MB_TABLE_CVLAN RTL8365MB_TABLE_READ i val
                = (0, val', s')"
    and n: "3 \<le> length val"
  shows "length val' = length val"
proof -
  obtain r1 l1 s1 where c1: "regmap_read_poll_timeout s RTL8365MB_TABLE_LUT_REG
      (\<lambda>lut. FIELD_PREP 13 13 lut = 0) = (r1, l1, s1)" using prod_cases3 by blast
  from a c1 have "table_access_tail 3 s1 3 RTL8365MB_TABLE_READ i val = (0, val', s')"
    by (auto simp: rtl8365mb_table_access_def rtl8365mb_table_access_sz_def Let_def
          RTL8365MB_TABLE_CVLAN_def rtl8365mb_table_entry_size_def EINVAL_def
          split: if_splits)
  from tail_read_length [OF this _ n] show ?thesis by simp
qed

lemma table_write_wrote:
  assumes a: "rtl8365mb_table_access s RTL8365MB_TABLE_CVLAN RTL8365MB_TABLE_WRITE i val
                = (ret, val', s')"
  shows "wrote s s' (if ret = 0 then [ByID] else [])"
proof -
  obtain r1 s1 where c1: "regmap_bulk_write s RTL8365MB_TABLE_WRITE_DATA_REG_BASE (take 3 val)
      = (r1, s1)" by (rule prod.exhaust)
  from bulk_write_wrote_other [OF c1] have w1: "wrote s s1 []" by simp
  obtain r2 v2 s2 where c2: "table_access_tail 3 s1 3 RTL8365MB_TABLE_WRITE i val = (r2, v2, s2)"
    using prod_cases3 by blast
  from tail_wrote [OF c2] w1 have w2: "wrote s s2 (if r2 = 0 then [ByID] else [])"
    using wrote_nil_left by fastforce
  from a c1 c2 have "(ret \<noteq> 0 \<and> s' = s) \<or> (ret \<noteq> 0 \<and> s' = s1) \<or> (ret = r2 \<and> s' = s2)"
    by (auto simp: rtl8365mb_table_access_def rtl8365mb_table_access_sz_def Let_def
          RTL8365MB_TABLE_CVLAN_def rtl8365mb_table_entry_size_def EINVAL_def
          split: if_splits)
  with w1 w2 wrote_refl [of s] show ?thesis by auto
qed

lemma vlan4k_set_wrote:
  assumes a: "rtl8365mb_vlan4k_set s port vlan inc = (ret, s')"
  shows "wrote s s' (if ret = 0 then [ByID] else [])"
proof (cases "vid vlan > RTL8365MB_MAX_4K_VID")
  case True
  with a have "ret = - EINVAL" "s' = s" by (simp_all add: rtl8365mb_vlan4k_set_def)
  then show ?thesis by (simp add: EINVAL_def wrote_refl)
next
  case v: False
  obtain r1 e1 s1 where c1: "rtl8365mb_table_access s RTL8365MB_TABLE_CVLAN
      RTL8365MB_TABLE_READ (vid vlan) [0, 0, 0] = (r1, e1, s1)" using prod_cases3 by blast
  note w1 = table_read_wrote [OF c1]
  show ?thesis
  proof (cases "r1 = 0")
    case False
    with a c1 v have "ret = r1" "s' = s1" by (simp_all add: rtl8365mb_vlan4k_set_def)
    with False w1 show ?thesis by simp
  next
    case True
    with a c1 v obtain buf e2 where
      "rtl8365mb_table_access s1 RTL8365MB_TABLE_CVLAN RTL8365MB_TABLE_WRITE (vid vlan) buf
         = (ret, e2, s')"
      by (auto simp: rtl8365mb_vlan4k_set_def Let_def split: prod.splits)
    from table_write_wrote [OF this] w1 show ?thesis by (rule wrote_nil_left [rotated])
  qed
qed

lemma scan_wrote:
  "vlanmc_scan s v idxs fu e = (ret, idx, fu', e', s')
     \<Longrightarrow> wrote s s' []
       \<and> (ret = 0 \<longrightarrow> (idx \<in> set idxs \<and> length e' = 4)
                     \<or> (idx = 32 \<and> (fu' = fu \<or> (0 \<le> fu' \<and> nat fu' \<in> set idxs))))"
proof (induction idxs arbitrary: s fu e)
  case Nil
  then show ?case by (simp add: wrote_refl)
next
  case (Cons i rest)
  obtain r1 buf s1 where c1: "regmap_bulk_read s (RTL8365MB_VLAN_MC_CONF_REG i) 4
      = (r1, buf, s1)" using prod_cases3 by blast
  note w1 = bulk_read_wrote [OF c1]
  show ?case
  proof (cases "r1 = 0")
    case False
    with Cons.prems c1 have "ret = r1" "s' = s1" by simp_all
    with False w1 show ?thesis by simp
  next
    case r1: True
    with c1 have len: "length buf = 4" using bulk_read_length by blast
    show ?thesis
    proof (cases "FIELD_GET 12 0 (buf ! 3) = v")
      case True
      with Cons.prems c1 r1 have "ret = 0" "idx = i" "e' = buf" "s' = s1"
        by (simp_all add: Let_def)
      with w1 len show ?thesis by simp
    next
      case False
      let ?fu = "if FIELD_GET 12 0 (buf ! 3) = 0 \<and> fu < 0 then int i else fu"
      from Cons.prems c1 r1 False
      have "vlanmc_scan s1 v rest ?fu buf = (ret, idx, fu', e', s')" by (simp add: Let_def)
      from Cons.IH [OF this] have
        w: "wrote s1 s' []" and
        x: "ret = 0 \<longrightarrow> (idx \<in> set rest \<and> length e' = 4)
                     \<or> (idx = 32 \<and> (fu' = ?fu \<or> (0 \<le> fu' \<and> nat fu' \<in> set rest)))"
        by blast+
      from w1 w have "wrote s s' []" by (rule wrote_nil_left)
      moreover from x have "ret = 0 \<longrightarrow> (idx \<in> set (i # rest) \<and> length e' = 4)
                     \<or> (idx = 32 \<and> (fu' = fu \<or> (0 \<le> fu' \<and> nat fu' \<in> set (i # rest))))"
        by (auto split: if_splits)
      ultimately show ?thesis by blast
    qed
  qed
qed

lemma new_wrote:
  "vlanmc_new s vlan fu = Inl (ret, s') \<Longrightarrow> wrote s s' []"
  "vlanmc_new s vlan fu = Inr (idx, e, v4k, s')
     \<Longrightarrow> wrote s s' [] \<and> idx = nat fu \<and> 0 \<le> fu \<and> length e = 4"
proof -
  obtain r1 e1 s1 where c1: "rtl8365mb_table_access s RTL8365MB_TABLE_CVLAN
      RTL8365MB_TABLE_READ (vid vlan) [0, 0, 0, 0] = (r1, e1, s1)" using prod_cases3 by blast
  note w1 = table_read_wrote [OF c1]
  {
    assume "vlanmc_new s vlan fu = Inl (ret, s')"
    with c1 have "s' = s \<or> s' = s1" by (auto simp: vlanmc_new_def split: if_splits)
    with w1 wrote_refl [of s] show "wrote s s' []" by auto
  next
    assume a: "vlanmc_new s vlan fu = Inr (idx, e, v4k, s')"
    with c1 have f: "idx = nat fu" "0 \<le> fu"
      and d: "(s' = s \<and> e = [0, 0, 0, 0]) \<or> (s' = s1 \<and> e = e1 \<and> r1 = 0)"
      by (auto simp: vlanmc_new_def split: if_splits)
    from d show "wrote s s' [] \<and> idx = nat fu \<and> 0 \<le> fu \<and> length e = 4"
    proof
      assume "s' = s \<and> e = [0, 0, 0, 0]"
      with f show ?thesis by (simp add: wrote_refl)
    next
      assume x: "s' = s1 \<and> e = e1 \<and> r1 = 0"
      with c1 have "length e1 = 4" using table_read_length [of s "vid vlan" "[0, 0, 0, 0]" e1 s1]
        by simp
      with x f w1 show ?thesis by simp
    qed
  }
qed

lemma update_bits_port:
  assumes a: "regmap_update_bits s r m v = (ret, s')"
    and r: "(0x700 \<le> r \<and> r < 0x706) \<or> (0x7AA \<le> r \<and> r < 0x7AC)"
  shows "wrote s s' (if ret = 0 then [PortReg] else [])"
proof -
  have "kind_of (Wr r w) = Some PortReg" for w using r by (auto simp: kind_of_def)
  with update_bits_wrote [OF a] show ?thesis
    by (cases "ret = 0") (simp_all add: kinds_Cons)
qed

lemma adjust_wrote:
  assumes a: "vlanmc_adjust s port vlan inc idx pv af = (ret, s')" and p: "port < 11"
  shows "\<exists>m. wrote s s' (replicate m PortReg)"
proof -
  let ?pr = "RTL8365MB_VLAN_PVID_CTRL_REG port"
  let ?fr = "RTL8365MB_VLAN_ACCEPT_FRAME_TYPE_REG port"
  have prb: "0x700 \<le> ?pr \<and> ?pr < 0x706" using p by (simp add: pvid_reg)
  have frb: "0x7AA \<le> ?fr \<and> ?fr < 0x7AC" using p by (simp add: frame_reg)
  define P where "P = (inc \<and> flags vlan AND 2 \<noteq> 0 \<and> idx \<noteq> pv)"
  define af' where "af' = (if \<not> inc then (if af = 0 \<and> pv = idx then 1 else af)
                 else if flags vlan AND 2 \<noteq> 0 \<and> af = 1 then 0 else af)"
  obtain r1 s1 where c1: "(if P then regmap_update_bits s ?pr (RTL8365MB_VLAN_PVID_CTRL_MASK port)
                        (push_bit (RTL8365MB_VLAN_PVID_CTRL_OFFSET port) (of_nat idx))
               else (0, s)) = (r1, s1)" by (rule prod.exhaust)
  have w1: "\<exists>m. wrote s s1 (replicate m PortReg)"
  proof (cases P)
    case True
    with c1 update_bits_port [of s ?pr _ _ r1 s1] prb
    have "wrote s s1 (replicate (if r1 = 0 then 1 else 0) PortReg)" by auto
    then show ?thesis by blast
  next
    case False
    with c1 have "wrote s s1 (replicate 0 PortReg)" by (simp add: wrote_refl)
    then show ?thesis by blast
  qed
  then obtain m1 where m1: "wrote s s1 (replicate m1 PortReg)" by blast
  obtain r2 s2 where c2: "regmap_update_bits s1 ?fr (RTL8365MB_VLAN_ACCEPT_FRAME_TYPE_MASK port)
                    (push_bit (RTL8365MB_VLAN_ACCEPT_FRAME_TYPE_OFFSET port) af') = (r2, s2)"
    by (rule prod.exhaust)
  from update_bits_port [OF c2] frb
  have "wrote s1 s2 (replicate (if r2 = 0 then 1 else 0) PortReg)" by auto
  with m1 have m2: "wrote s s2 (replicate (m1 + (if r2 = 0 then 1 else 0)) PortReg)"
    using wrote_trans [of s s1 "replicate m1 PortReg" s2] by (simp add: replicate_add)
  from a c1 c2 have "s' = s1 \<or> s' = s2"
    unfolding adjust_unfold Let_def P_def [symmetric] af'_def [symmetric]
    by (auto split: if_splits)
  with m1 m2 show ?thesis by blast
qed

lemma commit_wrote:
  assumes a: "vlanmc_commit s cpu port vlan inc idx entry v4k = (ret, s')"
    and p: "port < 11" and i: "idx < 32" and l: "length entry = 4"
  shows "\<exists>n m. wrote s s' (replicate n Slot @ replicate m PortReg)"
proof -
  obtain r1 d1 s1 where c1: "regmap_read s (RTL8365MB_VLAN_PVID_CTRL_REG port) = (r1, d1, s1)"
    using prod_cases3 by blast
  obtain r2 d2 s2 where c2: "regmap_read s1 (RTL8365MB_VLAN_ACCEPT_FRAME_TYPE_REG port)
      = (r2, d2, s2)" using prod_cases3 by blast
  have w1: "wrote s s1 []" by (rule read_wrote [OF c1])
  have w2: "wrote s s2 []" using w1 read_wrote [OF c2] by (rule wrote_nil_left)
  have z: "wrote s x [] \<Longrightarrow> \<exists>n m. wrote s x (replicate n Slot @ replicate m PortReg)" for x
    by (rule exI [of _ 0], rule exI [of _ 0]) simp
  show ?thesis
  proof (cases "r1 = 0 \<and> r2 = 0")
    case False
    with a c1 c2 have "s' = s1 \<or> s' = s2" by (auto simp: vlanmc_commit_def split: if_splits)
    with w1 w2 z show ?thesis by blast
  next
    case True
    define e' where "e' =
      (let vlanmc = rtl8365mb_buf_vlanmc entry vlanmc_zero;
           vlanmc = vlanmc\<lparr>member_mc := member_mc vlanmc OR member_4k v4k\<rparr>;
           vlanmc = (if inc then vlanmc\<lparr>member_mc := member_mc vlanmc OR BIT port\<rparr>
                     else vlanmc\<lparr>member_mc := member_mc vlanmc AND NOT (BIT port)\<rparr>);
           vlanmc = vlanmc\<lparr>vid_mc := vid vlan\<rparr>
       in if \<not> inc \<and> ucast (member_mc vlanmc) AND NOT cpu = 0
          then [0, 0, 0, 0]
          else rtl8365mb_vlanmc_buf vlanmc entry)"
    have le: "length e' = 4" using l by (simp add: e'_def Let_def)
    obtain r3 s3 where
      c3: "regmap_bulk_write s2 (RTL8365MB_VLAN_MC_CONF_REG idx) e' = (r3, s3)"
      by (rule prod.exhaust)
    have c4: "r3 \<noteq> 0 \<and> s' = s3
              \<or> (\<exists>pv af. vlanmc_adjust s3 port vlan inc idx pv af = (ret, s'))"
      using a c1 c2 True c3 unfolding vlanmc_commit_def e'_def Let_def
      by (auto simp del: regmap_bulk_write.simps split: if_splits)
    from bulk_write_wrote_slot [OF c3] i le obtain n where "wrote s2 s3 (replicate n Slot)"
      by (auto simp: mc_reg)
    with w2 have w3: "wrote s s3 (replicate n Slot)" by (rule wrote_nil_left)
    from c4 show ?thesis
    proof
      assume "r3 \<noteq> 0 \<and> s' = s3"
      with w3 have "wrote s s' (replicate n Slot @ replicate 0 PortReg)" by simp
      then show ?thesis by blast
    next
      assume "\<exists>pv af. vlanmc_adjust s3 port vlan inc idx pv af = (ret, s')"
      then obtain pv af where "vlanmc_adjust s3 port vlan inc idx pv af = (ret, s')" by blast
      from adjust_wrote [OF this p] obtain m where "wrote s3 s' (replicate m PortReg)" by blast
      with w3 have "wrote s s' (replicate n Slot @ replicate m PortReg)" by (rule wrote_trans)
      then show ?thesis by blast
    qed
  qed
qed

lemma vlanmc_set_wrote:
  assumes a: "rtl8365mb_vlanmc_set s cpu port vlan inc = (ret, s')" and p: "port < 11"
  shows "\<exists>n m. wrote s s' (replicate n Slot @ replicate m PortReg)"
proof -
  have z: "wrote s x [] \<Longrightarrow> \<exists>n m. wrote s x (replicate n Slot @ replicate m PortReg)" for x
    by (rule exI [of _ 0], rule exI [of _ 0]) simp
  have t: "wrote s x [] \<Longrightarrow> \<exists>n m. wrote x y (replicate n Slot @ replicate m PortReg)
             \<Longrightarrow> \<exists>n m. wrote s y (replicate n Slot @ replicate m PortReg)" for x y
    using wrote_nil_left by blast
  show ?thesis
  proof (cases "vid vlan > RTL8365MB_MAX_MC_VID")
    case True
    with a have "s' = s" by (simp add: rtl8365mb_vlanmc_set_def)
    with z [OF wrote_refl] show ?thesis by simp
  next
    case v: False
    obtain r1 idx fu e s1 where c1: "vlanmc_scan s (vid vlan) [1..<32] (- 1) [0, 0, 0, 0]
        = (r1, idx, fu, e, s1)" using prod_cases5 by blast
    from scan_wrote [OF c1] have w1: "wrote s s1 []"
      and x: "r1 = 0 \<longrightarrow> (idx \<in> set [1..<32] \<and> length e = 4)
                     \<or> (idx = 32 \<and> (fu = - 1 \<or> (0 \<le> fu \<and> nat fu \<in> set [1..<32])))"
      by blast+
    show ?thesis
    proof (cases "r1 = 0")
      case False
      with a c1 v have "s' = s1" by (simp add: rtl8365mb_vlanmc_set_def)
      with z [OF w1] show ?thesis by simp
    next
      case r1: True
      show ?thesis
      proof (cases "idx = 32")
        case False
        with x r1 have "idx < 32" "length e = 4" by auto
        moreover from a c1 v r1 False
        have "vlanmc_commit s1 cpu port vlan inc idx e vlan4k_zero = (ret, s')"
          by (simp add: rtl8365mb_vlanmc_set_def)
        ultimately show ?thesis using commit_wrote p t [OF w1] by blast
      next
        case i32: True
        with x r1 have fu: "fu = - 1 \<or> (0 \<le> fu \<and> nat fu < 32)" by auto
        show ?thesis
        proof (cases "vlanmc_new s1 vlan fu")
          case (Inl r)
          obtain ra sa where r: "r = (ra, sa)" by (rule prod.exhaust)
          with Inl a c1 v r1 i32 have "s' = sa" by (simp add: rtl8365mb_vlanmc_set_def)
          with new_wrote(1) [of s1 vlan fu ra sa] Inl r w1 have "wrote s s' []"
            using wrote_nil_left by blast
          then show ?thesis by (rule z)
        next
          case (Inr q)
          obtain i2 e2 v4k s2 where q: "q = (i2, e2, v4k, s2)" using prod_cases4 by blast
          from new_wrote(2) [of s1 vlan fu i2 e2 v4k s2] Inr q
          have w2: "wrote s1 s2 []" and i2: "i2 = nat fu" "0 \<le> fu" and l2: "length e2 = 4"
            by simp_all
          from i2 fu have "i2 < 32" by auto
          moreover from Inr q a c1 v r1 i32
          have "vlanmc_commit s2 cpu port vlan inc i2 e2 v4k = (ret, s')"
            by (simp add: rtl8365mb_vlanmc_set_def)
          ultimately have "\<exists>n m. wrote s2 s' (replicate n Slot @ replicate m PortReg)"
            using commit_wrote p l2 by blast
          with w1 w2 show ?thesis using t wrote_nil_left by blast
        qed
      qed
    qed
  qed
qed

lemma dropWhile_replicate_same:
  "dropWhile (\<lambda>k. k = a) (replicate n a @ xs) = dropWhile (\<lambda>k. k = a) xs"
  by (induction n) simp_all

lemma dropWhile_replicate_other:
  "a \<noteq> b \<Longrightarrow> dropWhile (\<lambda>k. k = a) (replicate n b @ xs)
     = (if n = 0 then dropWhile (\<lambda>k. k = a) xs else replicate n b @ xs)"
  by (cases n) simp_all

lemma after_round_one: "after_round (replicate n Slot @ replicate m PortReg) = []"
  using dropWhile_replicate_same [of Slot n "replicate m PortReg"]
    dropWhile_replicate_other [of Slot PortReg m "[]"]
    dropWhile_replicate_same [of PortReg m "[]"]
  by (simp add: after_round_def)

lemma after_round_Nil: "after_round [] = []"
  by (simp add: after_round_def)

lemma after_round_two:
  "after_round (after_round (replicate n1 Slot @ replicate m1 PortReg
                              @ replicate n2 Slot @ replicate m2 PortReg)) = []"
proof (cases "m1 = 0")
  case True
  have "replicate n1 Slot @ replicate m1 PortReg @ replicate n2 Slot @ replicate m2 PortReg
          = replicate (n1 + n2) Slot @ replicate m2 PortReg"
    using True by (simp add: replicate_add)
  then show ?thesis by (simp only: after_round_one after_round_Nil)
next
  case m1: False
  show ?thesis
  proof (cases "n2 = 0")
    case True
    have "replicate n1 Slot @ replicate m1 PortReg @ replicate n2 Slot @ replicate m2 PortReg
            = replicate n1 Slot @ replicate (m1 + m2) PortReg"
      using True by (simp add: replicate_add)
    then show ?thesis by (simp only: after_round_one after_round_Nil)
  next
    case n2: False
    let ?r = "replicate n2 Slot @ replicate m2 PortReg"
    have "dropWhile (\<lambda>k. k = Slot) (replicate n1 Slot @ replicate m1 PortReg @ ?r)
            = replicate m1 PortReg @ ?r"
      using dropWhile_replicate_same [of Slot n1 "replicate m1 PortReg @ ?r"]
        dropWhile_replicate_other [of Slot PortReg m1 ?r] m1 by simp
    moreover have "dropWhile (\<lambda>k. k = PortReg) (replicate m1 PortReg @ ?r) = ?r"
      using dropWhile_replicate_same [of PortReg m1 ?r]
        dropWhile_replicate_other [of PortReg Slot n2 "replicate m2 PortReg"] n2 by simp
    ultimately have "after_round (replicate n1 Slot @ replicate m1 PortReg @ ?r) = ?r"
      by (simp only: after_round_def)
    then show ?thesis by (simp only: after_round_one)
  qed
qed

lemma del_wrote:
  assumes "port < 11"
  shows "\<exists>k n m. k \<le> 1 \<and> (fst (rtl8365mb_vlan_del s cpu port vlan) = 0 \<longrightarrow> k = 1)
           \<and> wrote s (snd (rtl8365mb_vlan_del s cpu port vlan))
               (replicate k ByID @ replicate n Slot @ replicate m PortReg)"
proof -
  obtain r1 s1 where c1: "rtl8365mb_vlan4k_set s port vlan False = (r1, s1)"
    by (rule prod.exhaust)
  obtain r2 s2 where c2: "rtl8365mb_vlanmc_set s1 cpu port vlan False = (r2, s2)"
    by (rule prod.exhaust)
  from vlanmc_set_wrote [OF c2 assms] obtain n m where
    w2: "wrote s1 s2 (replicate n Slot @ replicate m PortReg)" by blast
  have d: "rtl8365mb_vlan_del s cpu port vlan = (if r1 \<noteq> 0 \<or> r2 \<noteq> 0 then 1 else 0, s2)"
    using c1 c2 by (simp add: rtl8365mb_vlan_del_def)
  define k :: nat where "k = (if r1 = 0 then 1 else 0)"
  have "wrote s s1 (replicate k ByID)" using vlan4k_set_wrote [OF c1]
    by (cases "r1 = 0") (simp_all add: k_def)
  from wrote_trans [OF this w2]
  have "wrote s s2 (replicate k ByID @ replicate n Slot @ replicate m PortReg)" .
  moreover have "k \<le> 1" "fst (rtl8365mb_vlan_del s cpu port vlan) = 0 \<longrightarrow> k = 1"
    by (simp_all add: k_def d)
  ultimately show ?thesis unfolding d snd_conv by blast
qed

lemma add_wrote:
  assumes "port < 11"
  shows "\<exists>n1 m1 n2 m2.
           wrote s (snd (rtl8365mb_vlan_add s cpu port vlan))
             (if fst (rtl8365mb_vlan_add s cpu port vlan) = 0
              then replicate n1 Slot @ replicate m1 PortReg @ [ByID]
              else replicate n1 Slot @ replicate m1 PortReg
                     @ replicate n2 Slot @ replicate m2 PortReg)"
proof -
  obtain a1 t1 where e1: "rtl8365mb_vlanmc_set s cpu port vlan True = (a1, t1)"
    by (rule prod.exhaust)
  obtain a2 t2 where e2: "rtl8365mb_vlan4k_set t1 port vlan True = (a2, t2)"
    by (rule prod.exhaust)
  obtain a3 t3 where e3: "rtl8365mb_vlanmc_set t2 cpu port vlan False = (a3, t3)"
    by (rule prod.exhaust)
  from vlanmc_set_wrote [OF e1 assms] obtain n1 m1 where
    v1: "wrote s t1 (replicate n1 Slot @ replicate m1 PortReg)" by blast
  from vlanmc_set_wrote [OF e3 assms] obtain n2 m2 where
    v3: "wrote t2 t3 (replicate n2 Slot @ replicate m2 PortReg)" by blast
  note v2 = vlan4k_set_wrote [OF e2]
  show ?thesis
  proof (cases "a1 = 0")
    case False
    then have "rtl8365mb_vlan_add s cpu port vlan = (a1, t1)"
      using e1 by (simp add: rtl8365mb_vlan_add_def)
    with False v1 show ?thesis
      by (intro exI [of _ n1] exI [of _ m1] exI [of _ 0]) simp
  next
    case a1: True
    show ?thesis
    proof (cases "a2 = 0")
      case True
      then have a: "rtl8365mb_vlan_add s cpu port vlan = (0, t2)"
        using e1 e2 a1 by (simp add: rtl8365mb_vlan_add_def)
      from wrote_trans [OF v1 v2] True
      have "wrote s t2 (replicate n1 Slot @ replicate m1 PortReg @ [ByID])" by simp
      with a show ?thesis by (intro exI [of _ n1] exI [of _ m1] exI [of _ 0]) simp
    next
      case False
      then have a: "rtl8365mb_vlan_add s cpu port vlan = (a2, t3)"
        using e1 e2 e3 a1 by (simp add: rtl8365mb_vlan_add_def)
      from wrote_trans [OF v1 v2] False
      have "wrote s t2 (replicate n1 Slot @ replicate m1 PortReg)" by simp
      from wrote_trans [OF this v3]
      have "wrote s t3 (replicate n1 Slot @ replicate m1 PortReg
                          @ replicate n2 Slot @ replicate m2 PortReg)" by simp
      with a False show ?thesis
        by (intro exI [of _ n1] exI [of _ m1] exI [of _ n2] exI [of _ m2]) simp
    qed
  qed
qed

lemma add_rollback_kinds:
  assumes "idle s" "port < 11" "vid vlan > 0xFFF" "vid vlan \<le> 0x1FFF"
    and t: "target_slot s vlan = Some idx"
    and af1: "af1 = (if flags vlan AND 2 \<noteq> 0 \<and> port_accept_frame s port = 1 then 0
                     else port_accept_frame s port)"
    and pv1: "pv1 = (if flags vlan AND 2 \<noteq> 0 then idx else port_pvid s port)"
  shows "kinds (new_trace s (snd (rtl8365mb_vlan_add s cpu port vlan)))
           = replicate 4 Slot
             @ (if flags vlan AND 2 \<noteq> 0 \<and> idx \<noteq> port_pvid s port then [PortReg] else [])
             @ (if af1 \<noteq> port_accept_frame s port then [PortReg] else [])
             @ replicate 4 Slot
             @ (if af1 = 0 \<and> pv1 = idx then [PortReg] else [])"
proof -
  define P where "P = (True \<and> flags vlan AND 2 \<noteq> 0 \<and> idx \<noteq> port_pvid s port)"
  have e1: "af1 = (if \<not> True
                     then (if port_accept_frame s port = 0 \<and> port_pvid s port = idx then 1
                           else port_accept_frame s port)
                     else if flags vlan AND 2 \<noteq> 0 \<and> port_accept_frame s port = 1 then 0
                     else port_accept_frame s port)" using af1 by simp
  from vlanmc_set_slot_mc [OF assms(1,2,4) t P_def e1, of cpu]
  obtain s1 tr1 where a:
    "rtl8365mb_vlanmc_set s cpu port vlan True = (0, s1)" "idle s1"
    "port_pvid s1 port = pv1" "port_accept_frame s1 port = af1"
    "trace s1 = trace s @ tr1"
    "kinds tr1 = replicate 4 Slot @ (if P then [PortReg] else [])
                          @ (if af1 \<noteq> port_accept_frame s port then [PortReg] else [])"
    "target_slot s1 vlan = Some idx"
    unfolding pv1 by auto
  define af2 where "af2 = (if af1 = 0 \<and> pv1 = idx then 1 else af1)"
  have e2: "af2 = (if \<not> False
                     then (if port_accept_frame s1 port = 0 \<and> port_pvid s1 port = idx then 1
                           else port_accept_frame s1 port)
                     else if flags vlan AND 2 \<noteq> 0 \<and> port_accept_frame s1 port = 1 then 0
                     else port_accept_frame s1 port)"
    by (simp add: af2_def a(3,4))
  have p2: "False = (False \<and> flags vlan AND 2 \<noteq> 0 \<and> idx \<noteq> port_pvid s1 port)" by simp
  from vlanmc_set_slot_mc [OF a(2) assms(2,4) a(7) p2 e2, of cpu]
  obtain s2 tr2 where b:
    "rtl8365mb_vlanmc_set s1 cpu port vlan False = (0, s2)"
    "trace s2 = trace s1 @ tr2"
    "kinds tr2 = replicate 4 Slot @ (if af2 \<noteq> port_accept_frame s1 port then [PortReg] else [])"
    by auto
  have "rtl8365mb_vlan_add s cpu port vlan = (- EINVAL, s2)"
    using a(1) b(1) vlan4k_set_einval [OF assms(3), of s1 port True]
    by (simp add: rtl8365mb_vlan_add_def EINVAL_def)
  moreover have "af2 \<noteq> af1 \<longleftrightarrow> af1 = 0 \<and> pv1 = idx" by (auto simp: af2_def)
  ultimately show ?thesis
    by (simp add: new_trace_def a(4,5,6) b(2,3) P_def)
qed

lemma add_first_fault:
  "rtl8365mb_vlan_add (chip0\<lparr>faults := [- EIO]\<rparr>) 0x100 2 \<lparr>vid = 10, flags = 2\<rparr>
     = (- EIO, chip0)"
proof -
  let ?s = "chip0\<lparr>faults := [- EIO]\<rparr>"
  have c: "chip0\<lparr>faults := []\<rparr> = chip0" by (simp add: chip0_def)
  have r: "regmap_read ?s r = (- EIO, 0, chip0)" for r
    by (simp add: regmap_read_def next_fault_def c EIO_def)
  have "regmap_bulk_read ?s r (Suc 3) = (- EIO, [], chip0)" for r
    unfolding regmap_bulk_read.simps r by (simp add: EIO_def)
  then have b: "regmap_bulk_read ?s r 4 = (- EIO, [], chip0)" for r by simp
  have u: "[1..<32] = 1 # [2..<(32::nat)]" by (simp add: upt_conv_Cons)
  have "vlanmc_scan ?s 10 [1..<32] (- 1) [0, 0, 0, 0] = (- EIO, 1, - 1, [0, 0, 0, 0], chip0)"
    unfolding u vlanmc_scan.simps b by (simp add: EIO_def)
  then have "rtl8365mb_vlanmc_set ?s 0x100 2 \<lparr>vid = 10, flags = 2\<rparr> True = (- EIO, chip0)"
    by (simp add: rtl8365mb_vlanmc_set_def EIO_def)
  then show ?thesis by (simp add: rtl8365mb_vlan_add_def EIO_def)
qed

section \<open>The order of the writes of an add and of a delete\<close>

lemma add_kinds_cases:
  assumes "idle s" "port < 11" "vid vlan \<le> 0xFFF"
  shows "\<exists>n m k. kinds (new_trace s (snd (rtl8365mb_vlan_add s cpu port vlan)))
                   = replicate n Slot @ replicate m PortReg @ replicate k ByID
               \<and> (fst (rtl8365mb_vlan_add s cpu port vlan) = 0 \<longrightarrow> k = 1)"
proof (cases "target_slot s vlan")
  case (Some idx)
  from vlan_add_slot [OF assms Some, of cpu] obtain s' where a:
    "rtl8365mb_vlan_add s cpu port vlan = (0, s')"
    "kinds (new_trace s s') =
                replicate 4 Slot
                @ (if flags vlan AND 2 \<noteq> 0 \<and> idx \<noteq> port_pvid s port then [PortReg] else [])
                @ (if flags vlan AND 2 \<noteq> 0 \<and> port_accept_frame s port = 1 then [PortReg] else [])
                @ [ByID]"
    by blast
  define m :: nat where
    "m = (if flags vlan AND 2 \<noteq> 0 \<and> idx \<noteq> port_pvid s port then 1 else 0)
         + (if flags vlan AND 2 \<noteq> 0 \<and> port_accept_frame s port = 1 then 1 else 0)"
  have "kinds (new_trace s s') = replicate 4 Slot @ replicate m PortReg @ replicate 1 ByID"
    unfolding a(2) m_def by simp
  then show ?thesis using a(1) by (intro exI [of _ 4] exI [of _ m] exI [of _ 1]) simp
next
  case None
  show ?thesis
  proof (cases "flags vlan AND 2 = 0")
    case True
    from vlan_add_none [OF assms None True, of cpu] obtain s' where
      "rtl8365mb_vlan_add s cpu port vlan = (0, s')" "kinds (new_trace s s') = [ByID]"
      by blast
    then show ?thesis by (intro exI [of _ 0] exI [of _ 0] exI [of _ 1]) simp
  next
    case False
    have fs: "faults s = []" using assms(1) by (simp add: idle_def)
    have v: "vid vlan \<le> 0x1FFF" using assms(3) by (simp add: word_le_nat_alt)
    have so: "slot_of s (vid vlan) = None" "free_slot s = None"
      using None False by (simp_all add: target_slot_def split: option.splits)
    from vlan_add_full [OF fs v False so, of cpu port] obtain s' where
      "rtl8365mb_vlan_add s cpu port vlan = (- EINVAL, s')" "kinds (new_trace s s') = []"
      by blast
    then show ?thesis by (intro exI [of _ 0] exI [of _ 0] exI [of _ 0]) (simp add: EINVAL_def)
  qed
qed

lemma del_kinds_cases:
  assumes "idle s" "port < 11" "vid vlan \<le> 0xFFF"
  shows "\<exists>n m. kinds (new_trace s (snd (rtl8365mb_vlan_del s cpu port vlan)))
                   = ByID # replicate n Slot @ replicate m PortReg"
proof (cases "target_slot s vlan")
  case (Some idx)
  from vlan_del_slot [OF assms Some, of cpu] obtain s' where a:
    "rtl8365mb_vlan_del s cpu port vlan = (0, s')"
    "kinds (new_trace s s') =
                [ByID] @ replicate 4 Slot
                @ (if port_accept_frame s port = 0 \<and> port_pvid s port = idx then [PortReg] else [])"
    by blast
  define m :: nat where
    "m = (if port_accept_frame s port = 0 \<and> port_pvid s port = idx then 1 else 0)"
  have "kinds (new_trace s s') = ByID # replicate 4 Slot @ replicate m PortReg"
    unfolding a(2) m_def by simp
  then show ?thesis using a(1) by (intro exI [of _ 4] exI [of _ m]) simp
next
  case None
  show ?thesis
  proof (cases "flags vlan AND 2 = 0")
    case True
    from vlan_del_none [OF assms None True, of cpu] obtain s' where
      "rtl8365mb_vlan_del s cpu port vlan = (0, s')" "kinds (new_trace s s') = [ByID]"
      by blast
    then show ?thesis by (intro exI [of _ 0] exI [of _ 0]) simp
  next
    case False
    from vlan_del_full [OF assms None False, of cpu] obtain s' where
      "rtl8365mb_vlan_del s cpu port vlan = (1, s')" "kinds (new_trace s s') = [ByID]"
      by blast
    then show ?thesis by (intro exI [of _ 0] exI [of _ 0]) simp
  qed
qed

lemma sorted_three:
  "a \<le> b \<Longrightarrow> b \<le> c \<Longrightarrow> sorted (replicate n a @ replicate m b @ replicate k (c::nat))"
  by (auto simp: sorted_append)

text \<open>
  Claim C1. For a port of the switch, whatever the state of the chip, the VLAN ID and the
  bus accesses that fail. A delete writes the by-ID table before the context slot, and
  the context slot before a port register; a delete that returns 0 starts with the write
  to the by-ID table. An add that returns 0 writes the context slot first, then the port
  registers, and the by-ID table last: it ends with the write to the by-ID table, and the
  writes before that one are a run of slot writes followed by a run of port register
  writes. An add that returns an error does not write the by-ID table at all: its writes
  are a run of slot writes and a run of port register writes, possibly followed by a
  second run of slot writes and a second run of port register writes (the rollback made
  when the by-ID step has failed); any of the runs may be empty. On a chip whose bus does
  not fail and whose table engine is not busy, for a VLAN ID of the by-ID table, every
  delete starts with the write to the by-ID table and every add keeps the order slot,
  port register, by-ID table.
\<close>

theorem vlan_write_order:
  assumes "port < 11"
  shows "by_id_first (kinds (new_trace s (snd (rtl8365mb_vlan_del s cpu port vlan))))
    \<and> (fst (rtl8365mb_vlan_del s cpu port vlan) = 0 \<longrightarrow>
          hd (kinds (new_trace s (snd (rtl8365mb_vlan_del s cpu port vlan)))) = ByID)
    \<and> (if fst (rtl8365mb_vlan_add s cpu port vlan) = 0
       then by_id_last (kinds (new_trace s (snd (rtl8365mb_vlan_add s cpu port vlan))))
          \<and> last (kinds (new_trace s (snd (rtl8365mb_vlan_add s cpu port vlan)))) = ByID
          \<and> after_round (butlast
               (kinds (new_trace s (snd (rtl8365mb_vlan_add s cpu port vlan))))) = []
       else ByID \<notin> set (kinds (new_trace s (snd (rtl8365mb_vlan_add s cpu port vlan))))
          \<and> after_round (after_round
               (kinds (new_trace s (snd (rtl8365mb_vlan_add s cpu port vlan))))) = [])
    \<and> (idle s \<and> vid vlan \<le> RTL8365MB_MAX_4K_VID \<longrightarrow>
          hd (kinds (new_trace s (snd (rtl8365mb_vlan_del s cpu port vlan)))) = ByID
          \<and> by_id_last (kinds (new_trace s (snd (rtl8365mb_vlan_add s cpu port vlan)))))"
proof -
  let ?Kd = "kinds (new_trace s (snd (rtl8365mb_vlan_del s cpu port vlan)))"
  let ?Ka = "kinds (new_trace s (snd (rtl8365mb_vlan_add s cpu port vlan)))"
  from del_wrote [OF assms, of s cpu vlan] obtain k n m where
    k: "k \<le> 1" "fst (rtl8365mb_vlan_del s cpu port vlan) = 0 \<longrightarrow> k = 1"
    and "wrote s (snd (rtl8365mb_vlan_del s cpu port vlan))
               (replicate k ByID @ replicate n Slot @ replicate m PortReg)"
    by blast
  then have kd: "?Kd = replicate k ByID @ replicate n Slot @ replicate m PortReg"
    by (simp only: wrote_kinds)
  have D1: "by_id_first ?Kd"
    unfolding kd using sorted_three [of 0 1 2 k n m] by (simp add: by_id_first_def)
  have D2: "fst (rtl8365mb_vlan_del s cpu port vlan) = 0 \<longrightarrow> hd ?Kd = ByID"
    unfolding kd using k(2) by auto
  from add_wrote [OF assms, of s cpu vlan] obtain n1 m1 n2 m2 where
    "wrote s (snd (rtl8365mb_vlan_add s cpu port vlan))
             (if fst (rtl8365mb_vlan_add s cpu port vlan) = 0
              then replicate n1 Slot @ replicate m1 PortReg @ [ByID]
              else replicate n1 Slot @ replicate m1 PortReg
                     @ replicate n2 Slot @ replicate m2 PortReg)"
    by blast
  then have ka: "?Ka = (if fst (rtl8365mb_vlan_add s cpu port vlan) = 0
              then replicate n1 Slot @ replicate m1 PortReg @ [ByID]
              else replicate n1 Slot @ replicate m1 PortReg
                     @ replicate n2 Slot @ replicate m2 PortReg)"
    by (simp only: wrote_kinds)
  have A: "if fst (rtl8365mb_vlan_add s cpu port vlan) = 0
       then by_id_last ?Ka \<and> last ?Ka = ByID \<and> after_round (butlast ?Ka) = []
       else ByID \<notin> set ?Ka \<and> after_round (after_round ?Ka) = []"
  proof (cases "fst (rtl8365mb_vlan_add s cpu port vlan) = 0")
    case True
    then have e: "?Ka = replicate n1 Slot @ replicate m1 PortReg @ [ByID]"
      using ka by simp
    have "by_id_last (replicate n1 Slot @ replicate m1 PortReg @ [ByID])"
      using sorted_three [of 0 1 2 n1 m1 1] by (simp add: by_id_last_def)
    moreover have "butlast (replicate n1 Slot @ replicate m1 PortReg @ [ByID])
                     = replicate n1 Slot @ replicate m1 PortReg"
      by (simp add: butlast_append)
    ultimately show ?thesis using True unfolding e by (simp add: after_round_one)
  next
    case False
    then have e: "?Ka = replicate n1 Slot @ replicate m1 PortReg
                     @ replicate n2 Slot @ replicate m2 PortReg"
      using ka by simp
    show ?thesis using False unfolding e by (simp add: after_round_two)
  qed
  have I: "idle s \<and> vid vlan \<le> RTL8365MB_MAX_4K_VID \<longrightarrow> hd ?Kd = ByID \<and> by_id_last ?Ka"
  proof
    assume i: "idle s \<and> vid vlan \<le> RTL8365MB_MAX_4K_VID"
    from del_kinds_cases [of s port vlan cpu] i assms obtain n m where
      "?Kd = ByID # replicate n Slot @ replicate m PortReg" by blast
    then have 1: "hd ?Kd = ByID" by simp
    from add_kinds_cases [of s port vlan cpu] i assms obtain n' m' k' where
      "?Ka = replicate n' Slot @ replicate m' PortReg @ replicate k' ByID" by blast
    then have "by_id_last ?Ka"
      using sorted_three [of 0 1 2 n' m' k'] by (simp add: by_id_last_def)
    with 1 show "hd ?Kd = ByID \<and> by_id_last ?Ka" by simp
  qed
  from D1 D2 A I show ?thesis by blast
qed

theorem vlan_write_order_witness:
  "fst (rtl8365mb_vlan_del pvid_chip 0x100 2 \<lparr>vid = 10, flags = 0\<rparr>) = 0
   \<and> by_id_first (kinds (new_trace pvid_chip
       (snd (rtl8365mb_vlan_del pvid_chip 0x100 2 \<lparr>vid = 10, flags = 0\<rparr>))))
   \<and> hd (kinds (new_trace pvid_chip
       (snd (rtl8365mb_vlan_del pvid_chip 0x100 2 \<lparr>vid = 10, flags = 0\<rparr>)))) = ByID
   \<and> fst (rtl8365mb_vlan_add chip0 0x100 2 \<lparr>vid = 10, flags = 2\<rparr>) = 0
   \<and> by_id_last (kinds (new_trace chip0
       (snd (rtl8365mb_vlan_add chip0 0x100 2 \<lparr>vid = 10, flags = 2\<rparr>))))
   \<and> last (kinds (new_trace chip0
       (snd (rtl8365mb_vlan_add chip0 0x100 2 \<lparr>vid = 10, flags = 2\<rparr>)))) = ByID
   \<and> after_round (butlast (kinds (new_trace chip0
       (snd (rtl8365mb_vlan_add chip0 0x100 2 \<lparr>vid = 10, flags = 2\<rparr>))))) = []
   \<and> fst (rtl8365mb_vlan_add chip0 0x100 2 \<lparr>vid = 5000, flags = 2\<rparr>) = - EINVAL
   \<and> kinds (new_trace chip0 (snd (rtl8365mb_vlan_add chip0 0x100 2 \<lparr>vid = 5000, flags = 2\<rparr>)))
       = [Slot, Slot, Slot, Slot, PortReg] @ [Slot, Slot, Slot, Slot, PortReg]
   \<and> ByID \<notin> set (kinds (new_trace chip0
       (snd (rtl8365mb_vlan_add chip0 0x100 2 \<lparr>vid = 5000, flags = 2\<rparr>))))
   \<and> after_round (after_round (kinds (new_trace chip0
       (snd (rtl8365mb_vlan_add chip0 0x100 2 \<lparr>vid = 5000, flags = 2\<rparr>))))) = []
   \<and> \<not> by_id_last (kinds (new_trace chip0
       (snd (rtl8365mb_vlan_add chip0 0x100 2 \<lparr>vid = 5000, flags = 2\<rparr>))))
   \<and> fst (rtl8365mb_vlan_add (chip0\<lparr>faults := [- EIO]\<rparr>) 0x100 2
            \<lparr>vid = 10, flags = 2\<rparr>) = - EIO
   \<and> ByID \<notin> set (kinds (new_trace (chip0\<lparr>faults := [- EIO]\<rparr>)
       (snd (rtl8365mb_vlan_add (chip0\<lparr>faults := [- EIO]\<rparr>) 0x100 2
              \<lparr>vid = 10, flags = 2\<rparr>))))"
proof -
  let ?n = "\<lparr>vid = 10, flags = 0\<rparr> :: switchdev_obj_port_vlan"
  let ?p = "\<lparr>vid = 10, flags = 2\<rparr> :: switchdev_obj_port_vlan"
  let ?b = "\<lparr>vid = 5000, flags = 2\<rparr> :: switchdev_obj_port_vlan"
  have ip: "idle pvid_chip" by (simp add: idle_def pvid_chip_def chip0_def)
  have tp: "target_slot chip0 ?p = Some 1"
    by (simp add: target_slot_def slot_of_def free_slot_def find_None_iff upt_conv_Cons)
  have tb: "target_slot chip0 ?b = Some 1"
    by (simp add: target_slot_def slot_of_def free_slot_def find_None_iff upt_conv_Cons)
  have p0: "port_pvid chip0 2 = 0" "port_accept_frame chip0 2 = 0"
    by (simp_all add: port_pvid_def port_accept_frame_def chip0_def)
  from del_all_cases [OF ip, of 2 "0x100" ?n]
  have fd: "fst (rtl8365mb_vlan_del pvid_chip 0x100 2 ?n) = 0" by auto
  from add_all_cases [OF idle_chip0, of 2 "0x100" ?p]
  have fa: "fst (rtl8365mb_vlan_add chip0 0x100 2 ?p) = 0" by (auto simp: tp)
  from add_all_cases [OF idle_chip0, of 2 "0x100" ?b]
  have fb: "fst (rtl8365mb_vlan_add chip0 0x100 2 ?b) = - EINVAL" by auto
  have r4: "replicate 4 Slot = [Slot, Slot, Slot, Slot]" by (simp add: numeral_eq_Suc)
  from add_rollback_kinds [OF idle_chip0 _ _ _ tb refl refl, of 2 "0x100"]
  have kb: "kinds (new_trace chip0 (snd (rtl8365mb_vlan_add chip0 0x100 2 ?b)))
       = [Slot, Slot, Slot, Slot, PortReg] @ [Slot, Slot, Slot, Slot, PortReg]"
    by (simp add: p0 r4)
  have nb: "\<not> by_id_last (kinds (new_trace chip0 (snd (rtl8365mb_vlan_add chip0 0x100 2 ?b))))"
    unfolding kb by (simp add: by_id_last_def)
  have 1: "by_id_first (kinds (new_trace pvid_chip (snd (rtl8365mb_vlan_del pvid_chip 0x100 2 ?n))))
     \<and> hd (kinds (new_trace pvid_chip (snd (rtl8365mb_vlan_del pvid_chip 0x100 2 ?n)))) = ByID"
    using vlan_write_order [of 2 pvid_chip "0x100" ?n] fd by simp
  have 2: "by_id_last (kinds (new_trace chip0 (snd (rtl8365mb_vlan_add chip0 0x100 2 ?p))))
     \<and> last (kinds (new_trace chip0 (snd (rtl8365mb_vlan_add chip0 0x100 2 ?p)))) = ByID
     \<and> after_round (butlast (kinds (new_trace chip0
          (snd (rtl8365mb_vlan_add chip0 0x100 2 ?p))))) = []"
    using vlan_write_order [of 2 chip0 "0x100" ?p] fa by simp
  have 3: "ByID \<notin> set (kinds (new_trace chip0 (snd (rtl8365mb_vlan_add chip0 0x100 2 ?b))))
     \<and> after_round (after_round (kinds (new_trace chip0
          (snd (rtl8365mb_vlan_add chip0 0x100 2 ?b))))) = []"
    using vlan_write_order [of 2 chip0 "0x100" ?b] fb by (simp add: EINVAL_def)
  have ff: "fst (rtl8365mb_vlan_add (chip0\<lparr>faults := [- EIO]\<rparr>) 0x100 2 ?p) = - EIO"
    by (simp only: add_first_fault fst_conv)
  have 4: "ByID \<notin> set (kinds (new_trace (chip0\<lparr>faults := [- EIO]\<rparr>)
       (snd (rtl8365mb_vlan_add (chip0\<lparr>faults := [- EIO]\<rparr>) 0x100 2 ?p))))"
    using vlan_write_order [of 2 "chip0\<lparr>faults := [- EIO]\<rparr>" "0x100" ?p] ff
    by (simp add: EIO_def)
  from fd fa fb kb nb 1 2 3 ff 4 show ?thesis by blast
qed

text \<open>
  An add of VLAN 10 with the PVID flag on port 2 of a chip after reset writes the context
  slot and the PVID register before it writes the by-ID table.
\<close>

theorem vlan_write_order_counterexample:
  "kinds (new_trace chip0 (snd (rtl8365mb_vlan_add chip0 0x100 2 \<lparr>vid = 10, flags = 2\<rparr>)))
     = [Slot, Slot, Slot, Slot, PortReg, ByID]
   \<and> \<not> by_id_first (kinds (new_trace chip0
          (snd (rtl8365mb_vlan_add chip0 0x100 2 \<lparr>vid = 10, flags = 2\<rparr>))))"
proof -
  let ?p = "\<lparr>vid = 10, flags = 2\<rparr> :: switchdev_obj_port_vlan"
  have i: "idle chip0" by (simp add: idle_def chip0_def)
  have e: "mc_evid chip0 i = 0" for i by (simp add: mc_evid_def chip0_def FIELD_GET_def)
  have t: "target_slot chip0 ?p = Some 1"
    by (simp add: target_slot_def slot_of_def free_slot_def e find_None_iff upt_conv_Cons)
  have p: "port_pvid chip0 2 = 0" "port_accept_frame chip0 2 = 0"
    by (simp_all add: port_pvid_def port_accept_frame_def chip0_def)
  from vlan_add_slot [OF i _ _ t, of 2 "0x100"] obtain s' where
    "rtl8365mb_vlan_add chip0 0x100 2 ?p = (0, s')"
    "kinds (new_trace chip0 s') =
                replicate 4 Slot
                @ (if flags ?p AND 2 \<noteq> 0 \<and> 1 \<noteq> port_pvid chip0 2 then [PortReg] else [])
                @ (if flags ?p AND 2 \<noteq> 0 \<and> port_accept_frame chip0 2 = 1 then [PortReg] else [])
                @ [ByID]"
    by auto
  moreover have "replicate 4 Slot = [Slot, Slot, Slot, Slot]" by (simp add: numeral_eq_Suc)
  ultimately have "kinds (new_trace chip0 (snd (rtl8365mb_vlan_add chip0 0x100 2 ?p)))
               = [Slot, Slot, Slot, Slot, PortReg, ByID]"
    by (simp add: p)
  then show ?thesis by (simp add: by_id_first_def)
qed

section \<open>Adds that leave a port at tagged-only\<close>



end
